theory Spec2Isabelle
  imports Complex_Main
begin

section \<open>Data model of the solver (src/solvers/v09.cpp)\<close>

text \<open>
  The structs of the solver become records. A \<open>std::vector\<close> is a list; the pattern
  codes, scores and counters are C++ \<open>int\<close>/\<open>long\<close> values that stay far from the
  limits of their types (codes change by one per round), so they are \<open>int\<close>.
  Indices of machines and weeks are \<open>nat\<close>. A \<open>double\<close> is modelled as a \<open>real\<close>:
  sums, differences and comparisons are the exact ones. The one place where IEEE
  arithmetic differs in kind from the reals, a division by zero, is written out in
  \<open>quotient_gt\<close>.
\<close>

record Machine =
  weekDayPatterns :: "int list"
  weekEndPatterns :: "int list"
  weekDayPatternCosts :: "real list"
  weekEndPatternCosts :: "real list"
  loads :: "real list"
  machineNoDelays :: "int list"

record State =
  machines :: "Machine list"
  score :: int
  noViolations :: int
  noDelays :: int

datatype OptimizationPartType = WEEK_DAY | WEEK_END

record OptimizationPart =
  part_machine :: nat
  part_week :: nat
  part_type :: OptimizationPartType
  part_from :: int
  part_to :: int
  part_costImprovement :: real

record Optimization =
  opt_id :: string
  opt_name :: string
  opt_costImprovement :: real
  opt_parts :: "OptimizationPart list"

record Solver =
  noWeeks :: int
  noMachines :: int
  maxChanges :: int
  noInteractions :: int
  states :: "State list"
  badOptimizations :: "string set"
  reduceGlobalFailed :: bool
  previousOptimization :: "Optimization option"
  bestScore :: int

subsection \<open>Reading a unit cost\<close>

text \<open>
  \<open>costs[code - 1]\<close>: the cost vectors hold nine entries. A read at a negative index is
  undefined behaviour in the source; the model leaves its value unspecified, and no
  theorem below depends on it.
\<close>

definition costAt :: "real list \<Rightarrow> int \<Rightarrow> real" where
  "costAt costs i = (if 0 \<le> i then costs ! nat i else undefined)"

subsection \<open>OptimizationPart\<close>

definition weekDay :: "State \<Rightarrow> nat \<Rightarrow> nat \<Rightarrow> int \<Rightarrow> OptimizationPart" where
  "weekDay state m w newPattern =
     \<lparr> part_machine = m, part_week = w, part_type = WEEK_DAY,
       part_from = weekDayPatterns (machines state ! m) ! w,
       part_to = newPattern,
       part_costImprovement =
         costAt (weekDayPatternCosts (machines state ! m))
                (weekDayPatterns (machines state ! m) ! w - 1)
         - costAt (weekDayPatternCosts (machines state ! m)) (newPattern - 1) \<rparr>"

definition weekEnd :: "State \<Rightarrow> nat \<Rightarrow> nat \<Rightarrow> int \<Rightarrow> OptimizationPart" where
  "weekEnd state m w newPattern =
     \<lparr> part_machine = m, part_week = w, part_type = WEEK_END,
       part_from = weekEndPatterns (machines state ! m) ! w,
       part_to = newPattern,
       part_costImprovement =
         costAt (weekEndPatternCosts (machines state ! m))
                (weekEndPatterns (machines state ! m) ! w - 1)
         - costAt (weekEndPatternCosts (machines state ! m)) (newPattern - 1) \<rparr>"

text \<open>Writing one slot of the grid: \<open>state.machines[m].weekDayPatterns[w] = v\<close>.\<close>

definition setWeekDay :: "State \<Rightarrow> nat \<Rightarrow> nat \<Rightarrow> int \<Rightarrow> State" where
  "setWeekDay state m w v =
     state\<lparr>machines := (machines state)
       [m := (machines state ! m)\<lparr>weekDayPatterns :=
                (weekDayPatterns (machines state ! m))[w := v]\<rparr>]\<rparr>"

definition setWeekEnd :: "State \<Rightarrow> nat \<Rightarrow> nat \<Rightarrow> int \<Rightarrow> State" where
  "setWeekEnd state m w v =
     state\<lparr>machines := (machines state)
       [m := (machines state ! m)\<lparr>weekEndPatterns :=
                (weekEndPatterns (machines state ! m))[w := v]\<rparr>]\<rparr>"

definition part_apply :: "OptimizationPart \<Rightarrow> State \<Rightarrow> State" where
  "part_apply p state =
     (if part_type p = WEEK_DAY
      then setWeekDay state (part_machine p) (part_week p) (part_to p)
      else setWeekEnd state (part_machine p) (part_week p) (part_to p))"

definition part_undo :: "OptimizationPart \<Rightarrow> State \<Rightarrow> State" where
  "part_undo p state =
     (if part_type p = WEEK_DAY
      then setWeekDay state (part_machine p) (part_week p) (part_from p)
      else setWeekEnd state (part_machine p) (part_week p) (part_from p))"

subsection \<open>Optimization\<close>

text \<open>\<open>operator<<\<close> on an \<open>int\<close>: the decimal digits, with a minus sign when negative.\<close>

fun string_of_nat :: "nat \<Rightarrow> string" where
  "string_of_nat n =
     (if n < 10 then [''0123456789'' ! n]
      else string_of_nat (n div 10) @ [''0123456789'' ! (n mod 10)])"

declare string_of_nat.simps [simp del]

definition string_of_int :: "int \<Rightarrow> string" where
  "string_of_int i =
     (if i < 0 then CHR ''-'' # string_of_nat (nat (- i)) else string_of_nat (nat i))"

definition partTypeCode :: "OptimizationPartType \<Rightarrow> nat" where
  "partTypeCode t = (case t of WEEK_DAY \<Rightarrow> 0 | WEEK_END \<Rightarrow> 1)"

definition partString :: "OptimizationPart \<Rightarrow> string" where
  "partString part =
     string_of_nat (part_machine part)
     @ ''-'' @ string_of_nat (part_week part)
     @ ''-'' @ string_of_nat (partTypeCode (part_type part))
     @ ''-'' @ string_of_int (part_from part)
     @ ''-'' @ string_of_int (part_to part)"

text \<open>
  The constructor's loop over the parts, with its two accumulators: the id stream and
  the cost improvement. The separator is written after every part but the last.
\<close>

fun optimizationLoop :: "OptimizationPart list \<Rightarrow> string \<Rightarrow> real \<Rightarrow> string \<times> real" where
  "optimizationLoop [] idStream ci = (idStream, ci)"
| "optimizationLoop (part # rest) idStream ci =
     optimizationLoop rest
       (idStream @ partString part @ (if rest \<noteq> [] then ''_'' else []))
       (ci + part_costImprovement part)"

definition mkOptimization :: "string \<Rightarrow> OptimizationPart list \<Rightarrow> Optimization" where
  "mkOptimization name parts =
     (let (idStream, ci) = optimizationLoop parts [] 0
      in \<lparr> opt_id = idStream, opt_name = name, opt_costImprovement = ci, opt_parts = parts \<rparr>)"

definition opt_apply :: "Optimization \<Rightarrow> State \<Rightarrow> State" where
  "opt_apply opt state = fold part_apply (opt_parts opt) state"

definition opt_undo :: "Optimization \<Rightarrow> State \<Rightarrow> State" where
  "opt_undo opt state = fold part_undo (opt_parts opt) state"

section \<open>The solver\<close>

subsection \<open>Comparing a mean with a threshold\<close>

text \<open>
  \<open>(sum / (double) n) > t\<close>. For \<open>n \<noteq> 0\<close> this is the comparison of the quotient. For
  \<open>n = 0\<close> the IEEE quotient is \<open>+inf\<close> when the sum is positive (the comparison holds),
  NaN when it is zero and \<open>-inf\<close> when it is negative (the comparison fails).
\<close>

definition quotient_gt :: "real \<Rightarrow> int \<Rightarrow> real \<Rightarrow> bool" where
  "quotient_gt s n t = (if n = 0 then 0 < s else s / real_of_int n > t)"

subsection \<open>Counting changes\<close>

definition getChanges :: "Solver \<Rightarrow> int list \<Rightarrow> int" where
  "getChanges sv patterns =
     fold (\<lambda>i changes. if patterns ! i \<noteq> patterns ! (i + 1) then changes + 1 else changes)
          [0..<nat (noWeeks sv - 1)] 0"

definition getRemainingChanges :: "Solver \<Rightarrow> Machine \<Rightarrow> int" where
  "getRemainingChanges sv machine =
     maxChanges sv - getChanges sv (weekDayPatterns machine)
                   - getChanges sv (weekEndPatterns machine)"

subsection \<open>Last operating weeks\<close>

text \<open>
  The loop runs \<open>i\<close> from \<open>noWeeks - 1\<close> down to 0 while one of the two results is still
  \<open>-1\<close>; the counter \<open>Suc i\<close> of the model stands for the loop variable \<open>i\<close>.
\<close>

fun getLastOperatingWeeksLoop :: "Machine \<Rightarrow> nat \<Rightarrow> int \<Rightarrow> int \<Rightarrow> int \<times> int" where
  "getLastOperatingWeeksLoop machine 0 lastDay lastEnd = (lastDay, lastEnd)"
| "getLastOperatingWeeksLoop machine (Suc i) lastDay lastEnd =
     (if lastDay = -1 \<or> lastEnd = -1
      then getLastOperatingWeeksLoop machine i
             (if lastDay = -1 \<and> weekDayPatterns machine ! i \<noteq> 1 then int i else lastDay)
             (if lastEnd = -1 \<and> weekEndPatterns machine ! i \<noteq> 1 then int i else lastEnd)
      else (lastDay, lastEnd))"

definition getLastOperatingWeeks :: "Solver \<Rightarrow> Machine \<Rightarrow> int \<times> int" where
  "getLastOperatingWeeks sv machine =
     getLastOperatingWeeksLoop machine (nat (noWeeks sv)) (-1) (-1)"

subsection \<open>ReduceGlobal guards (lines 220-246)\<close>

text \<open>
  The scan adds the load of week \<open>j\<close> and stops at the first week whose pattern differs
  from week 0. The weekday scan visits the weeks \<open>0..last\<close>, the weekend scan the weeks
  \<open>1..last\<close>.
\<close>

fun reduceGlobalScan :: "int list \<Rightarrow> real list \<Rightarrow> nat list \<Rightarrow> bool \<Rightarrow> real \<Rightarrow> bool \<times> real" where
  "reduceGlobalScan patterns lds [] can loadSum = (can, loadSum)"
| "reduceGlobalScan patterns lds (j # js) can loadSum =
     (if patterns ! j \<noteq> patterns ! 0 then (False, loadSum + lds ! j)
      else reduceGlobalScan patterns lds js can (loadSum + lds ! j))"

definition canReduceGlobalWeekDay :: "Solver \<Rightarrow> Machine \<Rightarrow> int \<Rightarrow> bool" where
  "canReduceGlobalWeekDay sv machine lastOperatingWeekDay =
     (let (can, weekDayLoadSum) =
            reduceGlobalScan (weekDayPatterns machine) (loads machine)
              [0..<nat (lastOperatingWeekDay + 1)] (lastOperatingWeekDay \<noteq> -1) 0
      in if noInteractions sv \<noteq> 300
            \<and> quotient_gt weekDayLoadSum (lastOperatingWeekDay + 1) 0.75
         then False else can)"

definition canReduceGlobalWeekEnd :: "Solver \<Rightarrow> Machine \<Rightarrow> int \<Rightarrow> bool" where
  "canReduceGlobalWeekEnd sv machine lastOperatingWeekEnd =
     (let (can, weekEndLoadSum) =
            reduceGlobalScan (weekEndPatterns machine) (loads machine)
              [1..<nat (lastOperatingWeekEnd + 1)] (lastOperatingWeekEnd \<noteq> -1) 0
      in if noInteractions sv \<noteq> 300
            \<and> quotient_gt weekEndLoadSum (lastOperatingWeekEnd + 1) 0.75
         then False else can)"

subsection \<open>ReduceGlobal moves of one machine (lines 248-279)\<close>

definition reduceGlobalMachineParts :: "State \<Rightarrow> nat \<Rightarrow> int \<Rightarrow> int \<Rightarrow> OptimizationPart list" where
  "reduceGlobalMachineParts state i lastOperatingWeekDay lastOperatingWeekEnd =
     concat (map (\<lambda>j. [weekDay state i j (weekDayPatterns (machines state ! i) ! j - 1),
                        weekEnd state i j (weekEndPatterns (machines state ! i) ! j - 1)])
                 [0..<nat (min lastOperatingWeekDay lastOperatingWeekEnd + 1)])"

definition reduceGlobalWeekDayParts :: "State \<Rightarrow> nat \<Rightarrow> int \<Rightarrow> OptimizationPart list" where
  "reduceGlobalWeekDayParts state i lastOperatingWeekDay =
     map (\<lambda>j. weekDay state i j (weekDayPatterns (machines state ! i) ! j - 1))
         [0..<nat (lastOperatingWeekDay + 1)]"

definition reduceGlobalWeekEndParts :: "State \<Rightarrow> nat \<Rightarrow> int \<Rightarrow> OptimizationPart list" where
  "reduceGlobalWeekEndParts state i lastOperatingWeekEnd =
     map (\<lambda>j. weekEnd state i j (weekEndPatterns (machines state ! i) ! j - 1))
         [0..<nat (lastOperatingWeekEnd + 1)]"

subsection \<open>ImproveSplit (lines 287-322 and 347-382)\<close>

text \<open>
  \<open>existingSplits\<close>: the pairs (start, size) of the runs of equal code over the weeks
  \<open>0..last\<close>. The list starts as \<open>[(0, 1)]\<close>; week \<open>j\<close> opens a new run when its code
  differs from week \<open>j - 1\<close> and extends the last run otherwise.
\<close>

fun existingSplitsLoop :: "int list \<Rightarrow> nat list \<Rightarrow> (nat \<times> nat) list \<Rightarrow> (nat \<times> nat) list" where
  "existingSplitsLoop patterns [] splits = splits"
| "existingSplitsLoop patterns (j # js) splits =
     existingSplitsLoop patterns js
       (if patterns ! j \<noteq> patterns ! (j - 1) then splits @ [(j, 1)]
        else butlast splits @ [(fst (last splits), snd (last splits) + 1)])"

definition existingSplits :: "int list \<Rightarrow> int \<Rightarrow> (nat \<times> nat) list" where
  "existingSplits patterns lastOperatingWeek =
     existingSplitsLoop patterns [1..<nat (lastOperatingWeek + 1)] [(0, 1)]"

text \<open>The scan of one run: it adds the load of each week and stops at a week of code 1.\<close>

fun improveScan :: "int list \<Rightarrow> real list \<Rightarrow> nat list \<Rightarrow> bool \<Rightarrow> real \<Rightarrow> bool \<times> real" where
  "improveScan patterns lds [] canImprove loadSum = (canImprove, loadSum)"
| "improveScan patterns lds (j # js) canImprove loadSum =
     (if patterns ! j = 1 then (False, loadSum + lds ! j)
      else improveScan patterns lds js canImprove (loadSum + lds ! j))"

definition canImproveSplit :: "int list \<Rightarrow> real list \<Rightarrow> nat \<times> nat \<Rightarrow> bool" where
  "canImproveSplit patterns lds split =
     (let (canImprove, loadSum) =
            improveScan patterns lds [fst split..<fst split + snd split] True 0
      in if quotient_gt loadSum (int (snd split)) 0.9 then False else canImprove)"

definition improveSplitWeekDay :: "State \<Rightarrow> nat \<Rightarrow> int \<Rightarrow> Optimization list" where
  "improveSplitWeekDay state i lastOperatingWeekDay =
     (let machine = machines state ! i
      in concat (map (\<lambda>split.
           if canImproveSplit (weekDayPatterns machine) (loads machine) split
           then [mkOptimization (''ImproveSplitWeekDay'' @ string_of_nat i)
                   (map (\<lambda>j. weekDay state i j (weekDayPatterns machine ! j - 1))
                        [fst split..<fst split + snd split])]
           else [])
         (existingSplits (weekDayPatterns machine) lastOperatingWeekDay)))"

definition improveSplitWeekEnd :: "State \<Rightarrow> nat \<Rightarrow> int \<Rightarrow> Optimization list" where
  "improveSplitWeekEnd state i lastOperatingWeekEnd =
     (let machine = machines state ! i
      in concat (map (\<lambda>split.
           if canImproveSplit (weekEndPatterns machine) (loads machine) split
           then [mkOptimization (''ImproveSplitWeekEnd'' @ string_of_nat i)
                   (map (\<lambda>j. weekEnd state i j (weekEndPatterns machine ! j - 1))
                        [fst split..<fst split + snd split])]
           else [])
         (existingSplits (weekEndPatterns machine) lastOperatingWeekEnd)))"

subsection \<open>CreateSplit (lines 324-344 and 384-404)\<close>

text \<open>
  The loop runs \<open>j\<close> from the last operating week down to 0; the counter \<open>Suc j\<close> of
  the model stands for the loop variable \<open>j\<close>. \<open>divisorBase\<close> is the week the divisor
  \<open>divisorBase - j + 1\<close> is counted from: \<open>lastOperatingWeekDay\<close> on both sides, as in
  the source. \<open>mk j\<close> is the part that lowers week \<open>j\<close> by one.
\<close>

fun createSplitLoop ::
  "(nat \<Rightarrow> OptimizationPart) \<Rightarrow> real list \<Rightarrow> int \<Rightarrow> nat \<Rightarrow> real
   \<Rightarrow> OptimizationPart list \<Rightarrow> int list \<Rightarrow> OptimizationPart list \<times> int list" where
  "createSplitLoop mk lds divisorBase 0 loadSum parts newPatterns = (parts, newPatterns)"
| "createSplitLoop mk lds divisorBase (Suc j) loadSum parts newPatterns =
     (if quotient_gt (loadSum + lds ! j) (divisorBase - int j + 1) 0.4
      then (parts, newPatterns)
      else createSplitLoop mk lds divisorBase j (loadSum + lds ! j)
             (parts @ [mk j]) (newPatterns[j := newPatterns ! j - 1]))"

definition createSplitWeekDay :: "Solver \<Rightarrow> State \<Rightarrow> nat \<Rightarrow> int \<Rightarrow> Optimization list" where
  "createSplitWeekDay sv state i lastOperatingWeekDay =
     (let machine = machines state ! i;
          weekEndChanges = getChanges sv (weekEndPatterns machine);
          (parts, newPatterns) =
            createSplitLoop (\<lambda>j. weekDay state i j (weekDayPatterns machine ! j - 1))
              (loads machine) lastOperatingWeekDay (nat (lastOperatingWeekDay + 1)) 0
              [] (weekDayPatterns machine);
          newChanges = getChanges sv newPatterns;
          newRemainingChanges = maxChanges sv - newChanges - weekEndChanges
      in if parts \<noteq> [] \<and> newRemainingChanges \<ge> 0
         then [mkOptimization (''CreateSplitWeekDay'' @ string_of_nat i) parts] else [])"

definition createSplitWeekEnd :: "Solver \<Rightarrow> State \<Rightarrow> nat \<Rightarrow> int \<Rightarrow> int \<Rightarrow> Optimization list" where
  "createSplitWeekEnd sv state i lastOperatingWeekDay lastOperatingWeekEnd =
     (let machine = machines state ! i;
          weekDayChanges = getChanges sv (weekDayPatterns machine);
          (parts, newPatterns) =
            createSplitLoop (\<lambda>j. weekEnd state i j (weekEndPatterns machine ! j - 1))
              (loads machine) lastOperatingWeekDay (nat (lastOperatingWeekEnd + 1)) 0
              [] (weekEndPatterns machine);
          newChanges = getChanges sv newPatterns;
          newRemainingChanges = maxChanges sv - weekDayChanges - newChanges
      in if parts \<noteq> [] \<and> newRemainingChanges \<ge> 0
         then [mkOptimization (''CreateSplitWeekEnd'' @ string_of_nat i) parts] else [])"

subsection \<open>The body of the loop over the machines (lines 215-406)\<close>

text \<open>
  The candidates of machine \<open>i\<close> in the order they are appended, and the parts the
  machine adds to \<open>reduceGlobalParts\<close>.
\<close>

definition canReduceGlobal :: "Solver \<Rightarrow> State \<Rightarrow> nat \<Rightarrow> bool" where
  "canReduceGlobal sv state i =
     (let machine = machines state ! i;
          (lastOperatingWeekDay, lastOperatingWeekEnd) = getLastOperatingWeeks sv machine
      in canReduceGlobalWeekDay sv machine lastOperatingWeekDay
         \<and> canReduceGlobalWeekEnd sv machine lastOperatingWeekEnd)"

definition machineReduceGlobalParts :: "Solver \<Rightarrow> State \<Rightarrow> nat \<Rightarrow> OptimizationPart list" where
  "machineReduceGlobalParts sv state i =
     (let machine = machines state ! i;
          (lastOperatingWeekDay, lastOperatingWeekEnd) = getLastOperatingWeeks sv machine
      in if canReduceGlobal sv state i
         then reduceGlobalMachineParts state i lastOperatingWeekDay lastOperatingWeekEnd
         else [])"

definition machineOptimizations :: "Solver \<Rightarrow> State \<Rightarrow> nat \<Rightarrow> Optimization list" where
  "machineOptimizations sv state i =
     (let machine = machines state ! i;
          (lastOperatingWeekDay, lastOperatingWeekEnd) = getLastOperatingWeeks sv machine;
          canDay = canReduceGlobalWeekDay sv machine lastOperatingWeekDay;
          canEnd = canReduceGlobalWeekEnd sv machine lastOperatingWeekEnd
      in (if canReduceGlobal sv state i
          then [mkOptimization (''ReduceGlobal'' @ string_of_nat i)
                  (reduceGlobalMachineParts state i lastOperatingWeekDay lastOperatingWeekEnd)]
          else [])
       @ (if canDay
          then [mkOptimization (''ReduceGlobalWeekDay'' @ string_of_nat i)
                  (reduceGlobalWeekDayParts state i lastOperatingWeekDay)]
          else [])
       @ (if canEnd
          then [mkOptimization (''ReduceGlobalWeekEnd'' @ string_of_nat i)
                  (reduceGlobalWeekEndParts state i lastOperatingWeekEnd)]
          else [])
       @ (if lastOperatingWeekDay \<noteq> -1
          then improveSplitWeekDay state i lastOperatingWeekDay
               @ createSplitWeekDay sv state i lastOperatingWeekDay
          else [])
       @ (if lastOperatingWeekEnd \<noteq> -1
          then improveSplitWeekEnd state i lastOperatingWeekEnd
               @ createSplitWeekEnd sv state i lastOperatingWeekDay lastOperatingWeekEnd
          else []))"

subsection \<open>Shutdown (lines 412-453)\<close>

text \<open>
  The loop runs \<open>j\<close> from \<open>max lastOperatingWeekDay lastOperatingWeekEnd\<close> down to 0 and
  stops at the first week with a positive load; the counter \<open>Suc j\<close> stands for \<open>j\<close>.
\<close>

fun shutdownLoop ::
  "State \<Rightarrow> nat \<Rightarrow> real list \<Rightarrow> nat
   \<Rightarrow> OptimizationPart list \<times> OptimizationPart list \<times> OptimizationPart list
   \<Rightarrow> OptimizationPart list \<times> OptimizationPart list \<times> OptimizationPart list" where
  "shutdownLoop state i lds 0 acc = acc"
| "shutdownLoop state i lds (Suc j) (partsAll, partsWeekDaysOnly, partsWeekEndsOnly) =
     (if lds ! j > 0 then (partsAll, partsWeekDaysOnly, partsWeekEndsOnly)
      else shutdownLoop state i lds j
             (partsAll @ [weekDay state i j 1, weekEnd state i j 1],
              partsWeekDaysOnly @ [weekDay state i j 1],
              partsWeekEndsOnly @ [weekEnd state i j 1]))"

definition shutdownMachineParts :: "Solver \<Rightarrow> State \<Rightarrow> nat \<Rightarrow> OptimizationPart list" where
  "shutdownMachineParts sv state i =
     (let machine = machines state ! i;
          remainingChanges = getRemainingChanges sv machine
      in if remainingChanges = 0 then []
         else
           (let (lastOperatingWeekDay, lastOperatingWeekEnd) = getLastOperatingWeeks sv machine;
                (partsAll, partsWeekDaysOnly, partsWeekEndsOnly) =
                  shutdownLoop state i (loads machine)
                    (nat (max lastOperatingWeekDay lastOperatingWeekEnd + 1)) ([], [], [])
            in if remainingChanges = 1
               then (if opt_costImprovement (mkOptimization [] partsWeekDaysOnly)
                        > opt_costImprovement (mkOptimization [] partsWeekEndsOnly)
                     then partsWeekDaysOnly else partsWeekEndsOnly)
               else partsAll))"

subsection \<open>generateOptimizations\<close>

definition generateOptimizations :: "Solver \<Rightarrow> State \<Rightarrow> Optimization list" where
  "generateOptimizations sv state =
     concat (map (machineOptimizations sv state) [0..<nat (noMachines sv)])
     @ (if noInteractions sv \<noteq> 300 \<and> \<not> reduceGlobalFailed sv
        then [mkOptimization ''ReduceGlobal''
                (concat (map (machineReduceGlobalParts sv state) [0..<nat (noMachines sv)]))]
        else [])
     @ (if int (length (states sv)) = noInteractions sv
        then [mkOptimization ''Shutdown''
                (concat (map (shutdownMachineParts sv state) [0..<nat (noMachines sv)]))]
        else [])"

subsection \<open>refine\<close>

text \<open>
  The first half of \<open>refine\<close> (lines 170-185): the best score is raised, and the previous
  optimization is undone on the last state when the score is 0 or below the best score.
\<close>

definition setLastState :: "Solver \<Rightarrow> State \<Rightarrow> Solver" where
  "setLastState sv state = sv\<lparr>states := (states sv)[length (states sv) - 1 := state]\<rparr>"

definition revertStep :: "Solver \<Rightarrow> Solver" where
  "revertStep sv =
     (let state = last (states sv);
          sv1 = sv\<lparr>bestScore := max (bestScore sv) (score state)\<rparr>
      in case previousOptimization sv1 of
           None \<Rightarrow> sv1
         | Some prev \<Rightarrow>
             if score state = 0 \<or> score state < bestScore sv1
             then (setLastState sv1 (opt_undo prev state))
                    \<lparr>badOptimizations := insert (opt_id prev) (badOptimizations sv1),
                     reduceGlobalFailed :=
                       (if opt_name prev = ''ReduceGlobal'' then True
                        else reduceGlobalFailed sv1)\<rparr>
             else sv1)"

text \<open>
  The selection loop (lines 189-198): \<open>bestCostImprovement\<close> starts at \<open>-1\<close>; a candidate
  replaces the best one when its improvement is strictly greater and its id is not in
  \<open>badOptimizations\<close>.
\<close>

fun selectLoop ::
  "string set \<Rightarrow> Optimization list \<Rightarrow> Optimization option \<Rightarrow> real \<Rightarrow> Optimization option" where
  "selectLoop bad [] bestOptimization bestCostImprovement = bestOptimization"
| "selectLoop bad (optimization # rest) bestOptimization bestCostImprovement =
     (if opt_costImprovement optimization > bestCostImprovement \<and> opt_id optimization \<notin> bad
      then selectLoop bad rest (Some optimization) (opt_costImprovement optimization)
      else selectLoop bad rest bestOptimization bestCostImprovement)"

definition selectBest :: "Solver \<Rightarrow> Optimization list \<Rightarrow> Optimization option" where
  "selectBest sv optimizations = selectLoop (badOptimizations sv) optimizations None (-1)"

definition applyStep :: "Solver \<Rightarrow> Solver" where
  "applyStep sv =
     (let state = last (states sv);
          bestOptimization = selectBest sv (generateOptimizations sv state)
      in case bestOptimization of
           Some best \<Rightarrow> (setLastState sv (opt_apply best state))\<lparr>previousOptimization := Some best\<rparr>
         | None \<Rightarrow> sv\<lparr>previousOptimization := None\<rparr>)"

definition refine :: "Solver \<Rightarrow> Solver" where
  "refine sv = applyStep (revertStep sv)"

section \<open>The interaction loop (main)\<close>

text \<open>
  The judge's input: the header with the nine cost pairs of every machine, and one
  feedback block per interaction (score, violations, delays, then load and delay of
  every week of every machine).
\<close>

record Feedback =
  fb_score :: int
  fb_noViolations :: int
  fb_noDelays :: int
  fb_weeks :: "(real \<times> int) list list"

definition newSolver :: "int \<Rightarrow> int \<Rightarrow> int \<Rightarrow> int \<Rightarrow> Solver" where
  "newSolver w m c n =
     \<lparr> noWeeks = w, noMachines = m, maxChanges = c, noInteractions = n,
       states = [\<lparr> machines = replicate (nat m)
                     \<lparr> weekDayPatterns = [], weekEndPatterns = [],
                       weekDayPatternCosts = [], weekEndPatternCosts = [],
                       loads = [], machineNoDelays = [] \<rparr>,
                   score = 0, noViolations = 0, noDelays = 0 \<rparr>],
       badOptimizations = {}, reduceGlobalFailed = False,
       previousOptimization = None, bestScore = 0 \<rparr>"

text \<open>Lines 504-520: the pattern vectors are sized and the nine cost pairs are stored.\<close>

definition readCosts :: "Solver \<Rightarrow> (int \<times> int) list list \<Rightarrow> Solver" where
  "readCosts sv costs =
     sv\<lparr>states := (states sv)[0 := (states sv ! 0)\<lparr>machines :=
       map (\<lambda>i. (machines (states sv ! 0) ! i)
                  \<lparr>weekDayPatterns := replicate (nat (noWeeks sv)) 0,
                   weekEndPatterns := replicate (nat (noWeeks sv)) 0,
                   weekDayPatternCosts := map (\<lambda>j. real_of_int (fst (costs ! i ! j))) [0..<9],
                   weekEndPatternCosts := map (\<lambda>j. real_of_int (snd (costs ! i ! j))) [0..<9]\<rparr>)
           [0..<nat (noMachines sv)]\<rparr>]\<rparr>"

definition setInitialPatterns :: "Solver \<Rightarrow> Solver" where
  "setInitialPatterns sv =
     sv\<lparr>states := (states sv)[0 := (states sv ! 0)\<lparr>machines :=
       map (\<lambda>i. (machines (states sv ! 0) ! i)
                  \<lparr>weekDayPatterns :=
                     fold (\<lambda>j ps. ps[j := 9]) [0..<nat (noWeeks sv)]
                          (weekDayPatterns (machines (states sv ! 0) ! i)),
                   weekEndPatterns :=
                     fold (\<lambda>j ps. ps[j := 9]) [0..<nat (noWeeks sv)]
                          (weekEndPatterns (machines (states sv ! 0) ! i))\<rparr>)
           [0..<nat (noMachines sv)]\<rparr>]\<rparr>"

definition initialSolver :: "int \<Rightarrow> int \<Rightarrow> int \<Rightarrow> int \<Rightarrow> (int \<times> int) list list \<Rightarrow> Solver" where
  "initialSolver w m c n costs = setInitialPatterns (readCosts (newSolver w m c n) costs)"

text \<open>Lines 538-554: the feedback block is stored in \<open>states[i]\<close>.\<close>

definition readFeedback :: "Solver \<Rightarrow> nat \<Rightarrow> Feedback \<Rightarrow> Solver" where
  "readFeedback sv i fb =
     sv\<lparr>states := (states sv)[i := (states sv ! i)
       \<lparr>machines :=
          map (\<lambda>j. (machines (states sv ! i) ! j)
                     \<lparr>loads := map (\<lambda>k. fst (fb_weeks fb ! j ! k)) [0..<nat (noWeeks sv)],
                      machineNoDelays := map (\<lambda>k. snd (fb_weeks fb ! j ! k)) [0..<nat (noWeeks sv)]\<rparr>)
              [0..<nat (noMachines sv)],
        score := fb_score fb, noViolations := fb_noViolations fb, noDelays := fb_noDelays fb\<rparr>]\<rparr>"

text \<open>Lines 562-563: a copy of \<open>states[i]\<close> is appended.\<close>

definition pushState :: "Solver \<Rightarrow> nat \<Rightarrow> Solver" where
  "pushState sv i = sv\<lparr>states := states sv @ [states sv ! i]\<rparr>"

text \<open>
  The loop of \<open>main\<close> over \<open>i = 0 .. noInteractions - 1\<close>, reading one feedback block per
  turn from the list of blocks. After the block of the last interaction the loop
  ends without a call of \<open>refine\<close>.
\<close>

fun interactionLoop :: "nat \<Rightarrow> Feedback list \<Rightarrow> Solver \<Rightarrow> Solver" where
  "interactionLoop i [] sv = sv"
| "interactionLoop i (fb # fbs) sv =
     (if int i < noInteractions sv
      then (if int i = noInteractions sv - 1 then readFeedback sv i fb
            else interactionLoop (Suc i) fbs (refine (pushState (readFeedback sv i fb) i)))
      else sv)"

text \<open>
  The same loop, recording for every call of \<open>refine\<close> the interaction number that the
  source logs before it (\<open>i + 2\<close>) and the candidates that \<open>refine\<close> generates.
\<close>

fun generatedTrace :: "nat \<Rightarrow> Feedback list \<Rightarrow> Solver \<Rightarrow> (nat \<times> Optimization list) list" where
  "generatedTrace i [] sv = []"
| "generatedTrace i (fb # fbs) sv =
     (if int i < noInteractions sv
      then (if int i = noInteractions sv - 1 then []
            else (i + 2,
                  generateOptimizations (revertStep (pushState (readFeedback sv i fb) i))
                    (last (states (revertStep (pushState (readFeedback sv i fb) i)))))
                 # generatedTrace (Suc i) fbs (refine (pushState (readFeedback sv i fb) i)))
      else [])"

section \<open>Notions used in the statements and proofs\<close>

text \<open>
  A part is a snapshot of a state when its slot exists in the state and its \<open>from\<close>
  field is the code stored there; this is what the constructors \<open>weekDay\<close> and
  \<open>weekEnd\<close> record.
\<close>

definition snapshotOf :: "State \<Rightarrow> OptimizationPart \<Rightarrow> bool" where
  "snapshotOf s p =
     (part_machine p < length (machines s)
      \<and> (case part_type p of
            WEEK_DAY \<Rightarrow>
              part_week p < length (weekDayPatterns (machines s ! part_machine p))
              \<and> part_from p = weekDayPatterns (machines s ! part_machine p) ! part_week p
          | WEEK_END \<Rightarrow>
              part_week p < length (weekEndPatterns (machines s ! part_machine p))
              \<and> part_from p = weekEndPatterns (machines s ! part_machine p) ! part_week p))"

text \<open>The slot a part writes, and two states that agree outside a set of slots.\<close>

definition partSlot :: "OptimizationPart \<Rightarrow> OptimizationPartType \<times> nat \<times> nat" where
  "partSlot p = (part_type p, part_machine p, part_week p)"

definition sameFrame :: "State \<Rightarrow> State \<Rightarrow> bool" where
  "sameFrame s t =
     (score t = score s \<and> noViolations t = noViolations s \<and> noDelays t = noDelays s
      \<and> length (machines t) = length (machines s)
      \<and> (\<forall>m<length (machines s).
            weekDayPatternCosts (machines t ! m) = weekDayPatternCosts (machines s ! m)
            \<and> weekEndPatternCosts (machines t ! m) = weekEndPatternCosts (machines s ! m)
            \<and> loads (machines t ! m) = loads (machines s ! m)
            \<and> machineNoDelays (machines t ! m) = machineNoDelays (machines s ! m)
            \<and> length (weekDayPatterns (machines t ! m)) = length (weekDayPatterns (machines s ! m))
            \<and> length (weekEndPatterns (machines t ! m)) = length (weekEndPatterns (machines s ! m))))"

definition agreesOutside ::
  "(OptimizationPartType \<times> nat \<times> nat) set \<Rightarrow> State \<Rightarrow> State \<Rightarrow> bool" where
  "agreesOutside S s t =
     (sameFrame s t
      \<and> (\<forall>m<length (machines s).
            (\<forall>w<length (weekDayPatterns (machines s ! m)).
               (WEEK_DAY, m, w) \<notin> S \<longrightarrow>
                 weekDayPatterns (machines t ! m) ! w = weekDayPatterns (machines s ! m) ! w)
            \<and> (\<forall>w<length (weekEndPatterns (machines s ! m)).
               (WEEK_END, m, w) \<notin> S \<longrightarrow>
                 weekEndPatterns (machines t ! m) ! w = weekEndPatterns (machines s ! m) ! w)))"

text \<open>
  The runs of equal code over the weeks \<open>0..<n\<close>: the pairs (start, length) cover the
  weeks in order without gaps, every run is non-empty and holds one code, and a run
  that starts after week 0 starts where the code changes.
\<close>

definition runsOfEqualCode :: "int list \<Rightarrow> nat \<Rightarrow> (nat \<times> nat) list \<Rightarrow> bool" where
  "runsOfEqualCode patterns n splits =
     (concat (map (\<lambda>(start, len). [start..<start + len]) splits) = [0..<n]
      \<and> (\<forall>(start, len)\<in>set splits.
            0 < len
            \<and> (\<forall>j\<in>{start..<start + len}. patterns ! start = patterns ! j)
            \<and> (0 < start \<longrightarrow> patterns ! start \<noteq> patterns ! (start - 1))))"


text \<open>
  A state is well formed for a solver when it holds \<open>noMachines\<close> machines whose pattern
  vectors have \<open>noWeeks\<close> entries, as \<open>main\<close> sets them up.
\<close>

definition wellFormed :: "Solver \<Rightarrow> State \<Rightarrow> bool" where
  "wellFormed sv state =
     (length (machines state) = nat (noMachines sv)
      \<and> (\<forall>m\<in>set (machines state).
            length (weekDayPatterns m) = nat (noWeeks sv)
            \<and> length (weekEndPatterns m) = nat (noWeeks sv)))"


section \<open>Concrete inputs\<close>

text \<open>Cost tables of one machine: rising by 100 per code, equal for all codes, falling.\<close>

definition risingCosts :: "(int \<times> int) list" where
  "risingCosts = [(100, 100), (200, 200), (300, 300), (400, 400), (500, 500),
                  (600, 600), (700, 700), (800, 800), (900, 900)]"

definition flatCosts :: "(int \<times> int) list" where
  "flatCosts = [(5, 5), (5, 5), (5, 5), (5, 5), (5, 5), (5, 5), (5, 5), (5, 5), (5, 5)]"

definition fallingCosts :: "(int \<times> int) list" where
  "fallingCosts = [(900, 900), (800, 800), (700, 700), (600, 600), (500, 500),
                   (400, 400), (300, 300), (200, 200), (100, 100)]"

text \<open>Writing down a machine and a state.\<close>

definition exMachine ::
  "(int \<times> int) list \<Rightarrow> int list \<Rightarrow> int list \<Rightarrow> real list \<Rightarrow> int list \<Rightarrow> Machine" where
  "exMachine costs wd we lds dls =
     \<lparr> weekDayPatterns = wd, weekEndPatterns = we,
       weekDayPatternCosts = map (\<lambda>j. real_of_int (fst (costs ! j))) [0..<9],
       weekEndPatternCosts = map (\<lambda>j. real_of_int (snd (costs ! j))) [0..<9],
       loads = lds, machineNoDelays = dls \<rparr>"

definition exState :: "Machine list \<Rightarrow> int \<Rightarrow> int \<Rightarrow> State" where
  "exState ms sc nd = \<lparr> machines = ms, score = sc, noViolations = 0, noDelays = nd \<rparr>"

text \<open>A feedback block for one machine and one week.\<close>

definition feedback1 :: "int \<Rightarrow> int \<Rightarrow> real \<Rightarrow> Feedback" where
  "feedback1 sc nd ld =
     \<lparr> fb_score = sc, fb_noViolations = 0, fb_noDelays = nd, fb_weeks = [[(ld, nd)]] \<rparr>"

text \<open>
  One machine, one week, ten interactions: the solver after the first feedback block
  has been read and the state has been copied, before \<open>refine\<close> runs.
\<close>

definition firstRound :: "(int \<times> int) list \<Rightarrow> Feedback \<Rightarrow> Solver" where
  "firstRound costs fb = pushState (readFeedback (initialSolver 1 1 0 10 [costs]) 0 fb) 0"

text \<open>
  The solver of \<open>firstRound\<close> one round later: \<open>refine\<close> has run once after a first score
  of 5, the second feedback block (score \<open>sc\<close>, \<open>nd\<close> delays) has been read and the
  state has been copied, before \<open>refine\<close> runs again.
\<close>

definition secondRound :: "int \<Rightarrow> int \<Rightarrow> Solver" where
  "secondRound sc nd =
     pushState (readFeedback (refine (firstRound risingCosts (feedback1 5 0 (1/2))))
                  1 (feedback1 sc nd (1/2))) 1"


text \<open>A feedback block for one machine and two weeks, without delays.\<close>

definition feedback2 :: "int \<Rightarrow> real \<Rightarrow> real \<Rightarrow> Feedback" where
  "feedback2 sc l0 l1 =
     \<lparr> fb_score = sc, fb_noViolations = 0, fb_noDelays = 0, fb_weeks = [[(l0, 0), (l1, 0)]] \<rparr>"

text \<open>
  One machine, two weeks, a budget of two changes, thirty interactions: the solver
  after the first feedback block has been read and the state has been copied.
\<close>

definition twoWeekRound :: "(int \<times> int) list \<Rightarrow> Feedback \<Rightarrow> Solver" where
  "twoWeekRound costs fb = pushState (readFeedback (initialSolver 2 1 2 30 [costs]) 0 fb) 0"


text \<open>A complete run of three interactions for one machine and one week.\<close>

definition threeRounds :: "(nat \<times> Optimization list) list" where
  "threeRounds =
     generatedTrace 0 [feedback1 5 0 (1/2), feedback1 6 0 (1/2), feedback1 7 0 (1/2)]
       (initialSolver 1 1 0 3 [risingCosts])"


text \<open>Costs that rise by 100 per code on weekdays and are equal on weekends.\<close>

definition weekdayCosts :: "(int \<times> int) list" where
  "weekdayCosts = [(100, 5), (200, 5), (300, 5), (400, 5), (500, 5),
                   (600, 5), (700, 5), (800, 5), (900, 5)]"


text \<open>
  A run for one machine and two weeks that leads to a pattern code outside 1..9.
  The weekday costs rise by 10 per code up to code 8 and are equal for the codes 8 and
  9; the weekend costs rise by 1 per code. \<open>block sc l0 l1\<close> is a feedback block without
  delays.
\<close>

definition steppedCosts :: "(int \<times> int) list" where
  "steppedCosts = [(10, 1), (20, 2), (30, 3), (40, 4), (50, 5),
                   (60, 6), (70, 7), (80, 8), (80, 9)]"

definition rangeRunFeedback :: "Feedback list" where
  "rangeRunFeedback =
     [feedback2 100 4 0, feedback2 50 4 0]
     @ replicate 7 (feedback2 100 4 0)
     @ [feedback2 100 0 0]
     @ replicate 7 (feedback2 100 0 1)"

definition rangeRun :: Solver where
  "rangeRun = interactionLoop 0 rangeRunFeedback (initialSolver 2 1 2 30 [steppedCosts])"




text \<open>
  The solver in the eighteenth call of \<open>refine\<close> of that run, after the feedback block
  has been read and the revert step has been done, and the candidates generated there.
\<close>

definition rangeRunLast :: Solver where
  "rangeRunLast = revertStep (pushState (readFeedback rangeRun 17 (feedback2 100 0 0)) 17)"

definition rangeRunCandidates :: "Optimization list" where
  "rangeRunCandidates = generateOptimizations rangeRunLast (last (states rangeRunLast))"


section \<open>Evaluation of the model on concrete inputs\<close>

lemmas model_defs = initialSolver_def newSolver_def readCosts_def setInitialPatterns_def
  readFeedback_def pushState_def refine_def revertStep_def applyStep_def selectBest_def
  setLastState_def generateOptimizations_def machineOptimizations_def
  machineReduceGlobalParts_def canReduceGlobal_def
  shutdownMachineParts_def getLastOperatingWeeks_def getRemainingChanges_def getChanges_def
  canReduceGlobalWeekDay_def canReduceGlobalWeekEnd_def quotient_gt_def
  reduceGlobalMachineParts_def reduceGlobalWeekDayParts_def reduceGlobalWeekEndParts_def
  improveSplitWeekDay_def improveSplitWeekEnd_def canImproveSplit_def existingSplits_def
  createSplitWeekDay_def createSplitWeekEnd_def mkOptimization_def opt_apply_def opt_undo_def
  part_apply_def part_undo_def setWeekDay_def setWeekEnd_def weekDay_def weekEnd_def costAt_def
  partString_def string_of_int_def partTypeCode_def string_of_nat.simps

text \<open>The loops that count down, at a numeral.\<close>

lemma getLastOperatingWeeksLoop_numeral:
  "getLastOperatingWeeksLoop machine (numeral k) d e =
     getLastOperatingWeeksLoop machine (Suc (pred_numeral k)) d e"
  by (simp only: numeral_eq_Suc)

lemma createSplitLoop_numeral:
  "createSplitLoop mk lds base (numeral k) loadSum parts newPatterns =
     createSplitLoop mk lds base (Suc (pred_numeral k)) loadSum parts newPatterns"
  by (simp only: numeral_eq_Suc)

lemma shutdownLoop_numeral:
  "shutdownLoop state i lds (numeral k) acc = shutdownLoop state i lds (Suc (pred_numeral k)) acc"
  by (simp only: numeral_eq_Suc)

lemma replicate_numeral: "replicate (numeral k) x = x # replicate (pred_numeral k) x"
  by (simp add: numeral_eq_Suc)

lemmas eval_simps = Let_def upt_conv_Cons getLastOperatingWeeksLoop_numeral
  createSplitLoop_numeral shutdownLoop_numeral replicate_numeral

lemmas example_defs = risingCosts_def flatCosts_def fallingCosts_def weekdayCosts_def
  feedback1_def feedback2_def exMachine_def exState_def

lemma firstRound_eval:
  "firstRound costs (feedback1 sc nd ld) =
     \<lparr> noWeeks = 1, noMachines = 1, maxChanges = 0, noInteractions = 10,
       states = [exState [exMachine costs [9] [9] [ld] [nd]] sc nd,
                 exState [exMachine costs [9] [9] [ld] [nd]] sc nd],
       badOptimizations = {}, reduceGlobalFailed = False,
       previousOptimization = None, bestScore = 0 \<rparr>"
  by (simp add: firstRound_def example_defs model_defs eval_simps)

lemma twoWeekRound_eval:
  "twoWeekRound costs (feedback2 sc l0 l1) =
     \<lparr> noWeeks = 2, noMachines = 1, maxChanges = 2, noInteractions = 30,
       states = [exState [exMachine costs [9, 9] [9, 9] [l0, l1] [0, 0]] sc 0,
                 exState [exMachine costs [9, 9] [9, 9] [l0, l1] [0, 0]] sc 0],
       badOptimizations = {}, reduceGlobalFailed = False,
       previousOptimization = None, bestScore = 0 \<rparr>"
  by (simp add: twoWeekRound_def example_defs model_defs eval_simps)

lemma secondRound_eval:
  "secondRound sc nd =
     \<lparr> noWeeks = 1, noMachines = 1, maxChanges = 0, noInteractions = 10,
       states = [exState [exMachine risingCosts [9] [9] [1/2] [0]] 5 0,
                 exState [exMachine risingCosts [8] [8] [1/2] [nd]] sc nd,
                 exState [exMachine risingCosts [8] [8] [1/2] [nd]] sc nd],
       badOptimizations = {}, reduceGlobalFailed = False,
       previousOptimization =
         Some (mkOptimization ''ReduceGlobal0''
                 [weekDay (exState [exMachine risingCosts [9] [9] [1/2] [0]] 5 0) 0 0 8,
                  weekEnd (exState [exMachine risingCosts [9] [9] [1/2] [0]] 5 0) 0 0 8]),
       bestScore = 5 \<rparr>"
  unfolding secondRound_def firstRound_eval
  by (simp add: example_defs model_defs eval_simps)


section \<open>The selection loop\<close>

lemma selectLoop_Some:
  "selectLoop bad opts best bc = Some b \<Longrightarrow>
     best = Some b \<or> (b \<in> set opts \<and> opt_id b \<notin> bad \<and> opt_costImprovement b > bc)"
proof (induction opts arbitrary: best bc)
  case Nil
  then show ?case by simp
next
  case (Cons x xs)
  show ?case
  proof (cases "opt_costImprovement x > bc \<and> opt_id x \<notin> bad")
    case True
    with Cons.prems have "selectLoop bad xs (Some x) (opt_costImprovement x) = Some b" by simp
    from Cons.IH [OF this] True show ?thesis by auto
  next
    case False
    with Cons.prems have "selectLoop bad xs best bc = Some b" by auto
    from Cons.IH [OF this] show ?thesis by auto
  qed
qed

lemma selectLoop_none_eligible:
  "\<forall>x\<in>set opts. opt_id x \<notin> bad \<longrightarrow> opt_costImprovement x \<le> bc \<Longrightarrow>
     selectLoop bad opts best bc = best"
  by (induction opts arbitrary: best bc) auto

lemma selectBest_Some:
  "selectBest sv opts = Some b \<Longrightarrow>
     b \<in> set opts \<and> opt_id b \<notin> badOptimizations sv \<and> opt_costImprovement b > -1"
  unfolding selectBest_def by (drule selectLoop_Some) simp

lemma selectBest_None:
  "\<forall>x\<in>set opts. opt_id x \<notin> badOptimizations sv \<longrightarrow> opt_costImprovement x \<le> -1 \<Longrightarrow>
     selectBest sv opts = None"
  unfolding selectBest_def by (rule selectLoop_none_eligible)


section \<open>The constructor of a move\<close>

lemma opt_id_mkOptimization:
  "opt_id (mkOptimization name parts) = fst (optimizationLoop parts [] 0)"
  by (simp add: mkOptimization_def split: prod.splits)

lemma opt_parts_mkOptimization [simp]: "opt_parts (mkOptimization name parts) = parts"
  by (simp add: mkOptimization_def split: prod.splits)

lemma opt_name_mkOptimization [simp]: "opt_name (mkOptimization name parts) = name"
  by (simp add: mkOptimization_def split: prod.splits)

lemma concat_map_single:
  assumes "m < n" and "\<forall>i<n. i \<noteq> m \<longrightarrow> f i = []"
  shows "concat (map f [0..<n]) = f m"
proof -
  have split: "[0..<n] = [0..<m] @ m # [Suc m..<n]"
    using assms(1) by (metis less_imp_add_positive upt_add_eq_append upt_conv_Cons zero_le)
  have a: "concat (map f [0..<m]) = []" using assms by auto
  have b: "concat (map f [Suc m..<n]) = []" using assms by auto
  show ?thesis by (simp add: split a b)
qed



section \<open>The last operating weeks\<close>

lemma getLastOperatingWeeksLoop_ge:
  "getLastOperatingWeeksLoop machine n d e = (d', e') \<Longrightarrow> -1 \<le> d \<Longrightarrow> -1 \<le> e \<Longrightarrow>
     -1 \<le> d' \<and> -1 \<le> e'"
proof (induction n arbitrary: d e)
  case 0
  then show ?case by simp
next
  case (Suc n)
  show ?case
  proof (cases "d = -1 \<or> e = -1")
    case True
    let ?d = "if d = -1 \<and> weekDayPatterns machine ! n \<noteq> 1 then int n else d"
    let ?e = "if e = -1 \<and> weekEndPatterns machine ! n \<noteq> 1 then int n else e"
    from True Suc.prems(1) have "getLastOperatingWeeksLoop machine n ?d ?e = (d', e')" by simp
    moreover have "-1 \<le> ?d" "-1 \<le> ?e" using Suc.prems by auto
    ultimately show ?thesis by (rule Suc.IH)
  next
    case False
    with Suc.prems show ?thesis by simp
  qed
qed

lemma getLastOperatingWeeks_ge:
  "getLastOperatingWeeks sv machine = (d, e) \<Longrightarrow> -1 \<le> d \<and> -1 \<le> e"
  unfolding getLastOperatingWeeks_def by (drule getLastOperatingWeeksLoop_ge) simp_all

lemma getLastOperatingWeeksLoop_lt:
  "getLastOperatingWeeksLoop machine n d e = (d', e') \<Longrightarrow>
     (d' = d \<or> d' < int n) \<and> (e' = e \<or> e' < int n)"
proof (induction n arbitrary: d e)
  case 0
  then show ?case by simp
next
  case (Suc n)
  show ?case
  proof (cases "d = -1 \<or> e = -1")
    case True
    let ?d = "if d = -1 \<and> weekDayPatterns machine ! n \<noteq> 1 then int n else d"
    let ?e = "if e = -1 \<and> weekEndPatterns machine ! n \<noteq> 1 then int n else e"
    from True Suc.prems have "getLastOperatingWeeksLoop machine n ?d ?e = (d', e')" by simp
    from Suc.IH [OF this] have "(d' = ?d \<or> d' < int n) \<and> (e' = ?e \<or> e' < int n)" .
    then show ?thesis by (auto split: if_splits)
  next
    case False
    with Suc.prems show ?thesis by simp
  qed
qed

lemma getLastOperatingWeeks_lt:
  assumes "getLastOperatingWeeks sv machine = (d, e)"
  shows "nat (d + 1) \<le> nat (noWeeks sv) \<and> nat (e + 1) \<le> nat (noWeeks sv)"
proof -
  from assms have "getLastOperatingWeeksLoop machine (nat (noWeeks sv)) (-1) (-1) = (d, e)"
    by (simp add: getLastOperatingWeeks_def)
  from getLastOperatingWeeksLoop_lt [OF this]
  have "(d = -1 \<or> d < int (nat (noWeeks sv))) \<and> (e = -1 \<or> e < int (nat (noWeeks sv)))" .
  then show ?thesis by (auto split: if_splits)
qed


section \<open>The decimal printing of a machine index\<close>







section \<open>The candidates of one machine\<close>

lemma improveSplitWeekDay_name:
  "x \<in> set (improveSplitWeekDay state i l) \<Longrightarrow> opt_name x = ''ImproveSplitWeekDay'' @ string_of_nat i"
  unfolding improveSplitWeekDay_def Let_def set_concat set_map
  by (auto split: if_splits)

lemma improveSplitWeekEnd_name:
  "x \<in> set (improveSplitWeekEnd state i l) \<Longrightarrow> opt_name x = ''ImproveSplitWeekEnd'' @ string_of_nat i"
  unfolding improveSplitWeekEnd_def Let_def set_concat set_map
  by (auto split: if_splits)

lemma createSplitWeekDay_name:
  "x \<in> set (createSplitWeekDay sv state i l) \<Longrightarrow> opt_name x = ''CreateSplitWeekDay'' @ string_of_nat i"
  unfolding createSplitWeekDay_def Let_def
  by (auto split: if_splits prod.splits)

lemma createSplitWeekEnd_name:
  "x \<in> set (createSplitWeekEnd sv state i l l') \<Longrightarrow> opt_name x = ''CreateSplitWeekEnd'' @ string_of_nat i"
  unfolding createSplitWeekEnd_def Let_def
  by (auto split: if_splits prod.splits)

lemma machineOptimizations_segments:
  assumes "getLastOperatingWeeks sv (machines state ! i) = (lastDay, lastEnd)"
  shows "machineOptimizations sv state i =
       (if canReduceGlobal sv state i
        then [mkOptimization (''ReduceGlobal'' @ string_of_nat i)
                (reduceGlobalMachineParts state i lastDay lastEnd)]
        else [])
     @ (if canReduceGlobalWeekDay sv (machines state ! i) lastDay
        then [mkOptimization (''ReduceGlobalWeekDay'' @ string_of_nat i)
                (reduceGlobalWeekDayParts state i lastDay)]
        else [])
     @ (if canReduceGlobalWeekEnd sv (machines state ! i) lastEnd
        then [mkOptimization (''ReduceGlobalWeekEnd'' @ string_of_nat i)
                (reduceGlobalWeekEndParts state i lastEnd)]
        else [])
     @ (if lastDay \<noteq> -1
        then improveSplitWeekDay state i lastDay @ createSplitWeekDay sv state i lastDay
        else [])
     @ (if lastEnd \<noteq> -1
        then improveSplitWeekEnd state i lastEnd @ createSplitWeekEnd sv state i lastDay lastEnd
        else [])"
  by (simp add: machineOptimizations_def assms Let_def)

lemma canReduceGlobal_conv:
  assumes "getLastOperatingWeeks sv (machines state ! i) = (lastDay, lastEnd)"
  shows "canReduceGlobal sv state i \<longleftrightarrow>
           canReduceGlobalWeekDay sv (machines state ! i) lastDay
           \<and> canReduceGlobalWeekEnd sv (machines state ! i) lastEnd"
  by (simp add: canReduceGlobal_def assms Let_def)

lemma machineReduceGlobalParts_Nil:
  "\<not> canReduceGlobal sv state i \<Longrightarrow> machineReduceGlobalParts sv state i = []"
  by (simp add: machineReduceGlobalParts_def Let_def split: prod.splits)

lemma reduceGlobal_in_machineOptimizations:
  "canReduceGlobal sv state i \<Longrightarrow>
     mkOptimization (''ReduceGlobal'' @ string_of_nat i) (machineReduceGlobalParts sv state i)
       \<in> set (machineOptimizations sv state i)"
proof -
  assume c: "canReduceGlobal sv state i"
  obtain d e where de: "getLastOperatingWeeks sv (machines state ! i) = (d, e)"
    by (cases "getLastOperatingWeeks sv (machines state ! i)")
  have p: "machineReduceGlobalParts sv state i = reduceGlobalMachineParts state i d e"
    using c by (simp add: machineReduceGlobalParts_def de)
  have "machineOptimizations sv state i =
          mkOptimization (''ReduceGlobal'' @ string_of_nat i) (reduceGlobalMachineParts state i d e)
          # tl (machineOptimizations sv state i)"
    using c by (simp add: machineOptimizations_def de Let_def)
  then show ?thesis unfolding p by (metis list.set_intros(1))
qed

lemma generateOptimizations_machine:
  assumes "i < nat (noMachines sv)" and "x \<in> set (machineOptimizations sv state i)"
  shows "x \<in> set (generateOptimizations sv state)"
proof -
  have "i \<in> set [0..<nat (noMachines sv)]" using assms(1) by simp
  with assms(2) have "x \<in> set (concat (map (machineOptimizations sv state) [0..<nat (noMachines sv)]))"
    unfolding set_concat set_map by blast
  then show ?thesis by (simp add: generateOptimizations_def)
qed

lemma machineOptimizations_not_Shutdown:
  assumes "x \<in> set (machineOptimizations sv state i)"
  shows "opt_name x \<noteq> ''Shutdown''"
proof -
  obtain d e where de: "getLastOperatingWeeks sv (machines state ! i) = (d, e)"
    by (cases "getLastOperatingWeeks sv (machines state ! i)")
  from assms show ?thesis
    unfolding machineOptimizations_segments [OF de]
    by (auto dest: improveSplitWeekDay_name improveSplitWeekEnd_name
                   createSplitWeekDay_name createSplitWeekEnd_name split: if_splits)
qed


section \<open>Writing the slots of a state\<close>

lemma setWeekDay_frame [simp]:
  "score (setWeekDay t m w v) = score t"
  "noViolations (setWeekDay t m w v) = noViolations t"
  "noDelays (setWeekDay t m w v) = noDelays t"
  "length (machines (setWeekDay t m w v)) = length (machines t)"
  by (simp_all add: setWeekDay_def)

lemma setWeekEnd_frame [simp]:
  "score (setWeekEnd t m w v) = score t"
  "noViolations (setWeekEnd t m w v) = noViolations t"
  "noDelays (setWeekEnd t m w v) = noDelays t"
  "length (machines (setWeekEnd t m w v)) = length (machines t)"
  by (simp_all add: setWeekEnd_def)

lemma machines_setWeekDay:
  "m' < length (machines t) \<Longrightarrow>
     machines (setWeekDay t m w v) ! m' =
       (if m' = m then (machines t ! m)\<lparr>weekDayPatterns := (weekDayPatterns (machines t ! m))[w := v]\<rparr>
        else machines t ! m')"
  by (simp add: setWeekDay_def nth_list_update)

lemma machines_setWeekEnd:
  "m' < length (machines t) \<Longrightarrow>
     machines (setWeekEnd t m w v) ! m' =
       (if m' = m then (machines t ! m)\<lparr>weekEndPatterns := (weekEndPatterns (machines t ! m))[w := v]\<rparr>
        else machines t ! m')"
  by (simp add: setWeekEnd_def nth_list_update)

lemma part_apply_weekDay [simp]: "part_apply (weekDay state i j v) t = setWeekDay t i j v"
  by (simp add: part_apply_def weekDay_def)

lemma part_apply_weekEnd [simp]: "part_apply (weekEnd state i j v) t = setWeekEnd t i j v"
  by (simp add: part_apply_def weekEnd_def)



lemma snapshotOf_weekDay:
  "m < length (machines s) \<Longrightarrow> w < length (weekDayPatterns (machines s ! m)) \<Longrightarrow>
     snapshotOf s (weekDay s m w c)"
  by (simp add: snapshotOf_def weekDay_def)

lemma snapshotOf_weekEnd:
  "m < length (machines s) \<Longrightarrow> w < length (weekEndPatterns (machines s ! m)) \<Longrightarrow>
     snapshotOf s (weekEnd s m w c)"
  by (simp add: snapshotOf_def weekEnd_def)

text \<open>Parts built on a state by the constructors for weeks below \<open>n\<close> of machine \<open>i\<close>.\<close>

lemma snapshot_weekDay_parts:
  assumes "i < length (machines state)" and "n \<le> length (weekDayPatterns (machines state ! i))"
    and "\<forall>j\<in>set js. j < n"
  shows "\<forall>p\<in>set (map (\<lambda>j. weekDay state i j (f j)) js). snapshotOf state p"
  using assms by (auto intro!: snapshotOf_weekDay)

lemma snapshot_weekEnd_parts:
  assumes "i < length (machines state)" and "n \<le> length (weekEndPatterns (machines state ! i))"
    and "\<forall>j\<in>set js. j < n"
  shows "\<forall>p\<in>set (map (\<lambda>j. weekEnd state i j (f j)) js). snapshotOf state p"
  using assms by (auto intro!: snapshotOf_weekEnd)


section \<open>The runs of equal code\<close>

text \<open>The loop that builds the runs, step by step.\<close>

lemma existingSplitsLoop_append:
  "existingSplitsLoop patterns (js @ [j]) splits =
     (let acc = existingSplitsLoop patterns js splits
      in if patterns ! j \<noteq> patterns ! (j - 1) then acc @ [(j, 1)]
         else butlast acc @ [(fst (last acc), snd (last acc) + 1)])"
  by (induction js arbitrary: splits) (simp_all add: Let_def)

lemma existingSplits_Suc:
  assumes "1 \<le> n"
  shows "existingSplitsLoop patterns [1..<Suc n] [(0, 1)] =
     (let acc = existingSplitsLoop patterns [1..<n] [(0, 1)]
      in if patterns ! n \<noteq> patterns ! (n - 1) then acc @ [(n, 1)]
         else butlast acc @ [(fst (last acc), snd (last acc) + 1)])"
proof -
  from assms have "[1..<Suc n] = [1..<n] @ [n]" by simp
  then show ?thesis by (simp only: existingSplitsLoop_append)
qed

lemma existingSplitsLoop_runs:
  assumes "1 \<le> n"
  shows "runsOfEqualCode patterns n (existingSplitsLoop patterns [1..<n] [(0, 1)])
         \<and> existingSplitsLoop patterns [1..<n] [(0, 1)] \<noteq> []
         \<and> fst (last (existingSplitsLoop patterns [1..<n] [(0, 1)]))
             + snd (last (existingSplitsLoop patterns [1..<n] [(0, 1)])) = n"
  using assms
proof (induction n rule: nat_induct_at_least)
  case base
  show ?case by (simp add: runsOfEqualCode_def)
next
  case (Suc n)
  note n1 = \<open>1 \<le> n\<close>
  let ?E = "existingSplitsLoop patterns [1..<n] [(0, 1)]"
  let ?f = "\<lambda>(start, len). [start..<start + len]"
  from Suc.IH have runs: "runsOfEqualCode patterns n ?E" and ne: "?E \<noteq> []"
    and end_n: "fst (last ?E) + snd (last ?E) = n" by simp_all
  from runs have cover: "concat (map ?f ?E) = [0..<n]"
    and each: "\<forall>(start, len)\<in>set ?E. 0 < len
                 \<and> (\<forall>j\<in>{start..<start + len}. patterns ! start = patterns ! j)
                 \<and> (0 < start \<longrightarrow> patterns ! start \<noteq> patterns ! (start - 1))"
    by (simp_all add: runsOfEqualCode_def)
  show ?case
  proof (cases "patterns ! n \<noteq> patterns ! (n - 1)")
    case True
    then have E': "existingSplitsLoop patterns [1..<Suc n] [(0, 1)] = ?E @ [(n, 1)]"
      unfolding existingSplits_Suc [OF n1] Let_def by simp
    have "runsOfEqualCode patterns (Suc n) (?E @ [(n, 1)])"
      unfolding runsOfEqualCode_def using cover each True n1 by auto
    then show ?thesis unfolding E' by simp
  next
    case False
    obtain s l where sl: "last ?E = (s, l)" by (cases "last ?E")
    from False have E': "existingSplitsLoop patterns [1..<Suc n] [(0, 1)]
                           = butlast ?E @ [(s, l + 1)]"
      unfolding existingSplits_Suc [OF n1] Let_def sl by simp
    from ne have split: "?E = butlast ?E @ [(s, l)]" using sl by (metis append_butlast_last_id)
    from end_n sl have sum: "s + l = n" by simp
    have mem: "(s, l) \<in> set ?E" using last_in_set [OF ne] sl by simp
    have lastrun: "0 < l \<and> (\<forall>j\<in>{s..<s + l}. patterns ! s = patterns ! j)
                   \<and> (0 < s \<longrightarrow> patterns ! s \<noteq> patterns ! (s - 1))"
      using bspec [OF each mem] unfolding prod.case .
    from split have "concat (map ?f ?E) = concat (map ?f (butlast ?E @ [(s, l)]))"
      by (rule arg_cong)
    from this [symmetric] cover have "concat (map ?f (butlast ?E @ [(s, l)])) = [0..<n]"
      by (rule trans)
    then have "concat (map ?f (butlast ?E)) @ [s..<s + l] = [0..<n]" by simp
    then have cover': "concat (map ?f (butlast ?E @ [(s, l + 1)])) = [0..<Suc n]"
      using sum by simp
    have old: "\<forall>(start, len)\<in>set (butlast ?E). 0 < len
                 \<and> (\<forall>j\<in>{start..<start + len}. patterns ! start = patterns ! j)
                 \<and> (0 < start \<longrightarrow> patterns ! start \<noteq> patterns ! (start - 1))"
    proof
      fix x assume "x \<in> set (butlast ?E)"
      then have "x \<in> set ?E" by (rule in_set_butlastD)
      with each show "case x of (start, len) \<Rightarrow> 0 < len
                 \<and> (\<forall>j\<in>{start..<start + len}. patterns ! start = patterns ! j)
                 \<and> (0 < start \<longrightarrow> patterns ! start \<noteq> patterns ! (start - 1))"
        by (rule bspec)
    qed
    have const': "\<forall>j\<in>{s..<s + (l + 1)}. patterns ! s = patterns ! j"
    proof
      fix j assume j: "j \<in> {s..<s + (l + 1)}"
      show "patterns ! s = patterns ! j"
      proof (cases "j = n")
        case True
        from lastrun sum have "n - 1 \<in> {s..<s + l}" by auto
        with lastrun have "patterns ! s = patterns ! (n - 1)" by blast
        with False True show ?thesis by simp
      next
        case False
        with j sum have "j \<in> {s..<s + l}" by auto
        with lastrun show ?thesis by blast
      qed
    qed
    have "runsOfEqualCode patterns (Suc n) (butlast ?E @ [(s, l + 1)])"
      unfolding runsOfEqualCode_def using cover' old const' lastrun by auto
    then show ?thesis unfolding E' using sum by simp
  qed
qed

lemma existingSplits_runs:
  assumes "0 \<le> lastOperatingWeek"
  shows "runsOfEqualCode patterns (nat (lastOperatingWeek + 1)) (existingSplits patterns lastOperatingWeek)"
proof -
  from assms have "1 \<le> nat (lastOperatingWeek + 1)" by simp
  from existingSplitsLoop_runs [OF this] show ?thesis by (simp add: existingSplits_def)
qed


lemma runsOfEqualCode_within:
  assumes "runsOfEqualCode patterns n splits" and "x \<in> set splits"
    and "j \<in> set [fst x..<fst x + snd x]"
  shows "j < n"
proof -
  from assms(1) have cover: "concat (map (\<lambda>(start, len). [start..<start + len]) splits) = [0..<n]"
    unfolding runsOfEqualCode_def by (rule conjunct1)
  have "[fst x..<fst x + snd x] = (\<lambda>(start, len). [start..<start + len]) x"
    by (simp add: split_def)
  with assms(2,3) have "j \<in> set (concat (map (\<lambda>(start, len). [start..<start + len]) splits))"
    unfolding set_concat set_map by blast
  then have "j \<in> set [0..<n]" unfolding cover .
  then show ?thesis by simp
qed


section \<open>The CreateSplit loop\<close>

lemma createSplitLoop_result:
  "createSplitLoop mk lds base n loadSum parts np = (parts', np') \<Longrightarrow>
     \<exists>k\<le>n. parts' = parts @ map mk (rev [k..<n])
            \<and> np' = fold (\<lambda>j p. p[j := p ! j - 1]) (rev [k..<n]) np"
proof (induction n arbitrary: loadSum parts np)
  case 0
  then show ?case by simp
next
  case (Suc n)
  show ?case
  proof (cases "quotient_gt (loadSum + lds ! n) (base - int n + 1) 0.4")
    case True
    with Suc.prems have "parts' = parts" "np' = np" by simp_all
    then have "Suc n \<le> Suc n \<and> parts' = parts @ map mk (rev [Suc n..<Suc n])
               \<and> np' = fold (\<lambda>j p. p[j := p ! j - 1]) (rev [Suc n..<Suc n]) np"
      by simp
    then show ?thesis by (rule exI)
  next
    case False
    with Suc.prems
    have "createSplitLoop mk lds base n (loadSum + lds ! n) (parts @ [mk n])
            (np[n := np ! n - 1]) = (parts', np')"
      by simp
    from Suc.IH [OF this] obtain k where k: "k \<le> n"
      and p: "parts' = (parts @ [mk n]) @ map mk (rev [k..<n])"
      and q: "np' = fold (\<lambda>j p. p[j := p ! j - 1]) (rev [k..<n]) (np[n := np ! n - 1])"
      by blast
    from k have r: "rev [k..<Suc n] = n # rev [k..<n]" by simp
    have "k \<le> Suc n \<and> parts' = parts @ map mk (rev [k..<Suc n])
          \<and> np' = fold (\<lambda>j p. p[j := p ! j - 1]) (rev [k..<Suc n]) np"
      unfolding r using k p q by simp
    then show ?thesis by (rule exI)
  qed
qed



lemma createSplitLoop_below:
  assumes "createSplitLoop mk lds base n 0 [] orig = (parts, np)"
  shows "\<exists>js. parts = map mk js \<and> (\<forall>j\<in>set js. j < n)"
proof -
  from createSplitLoop_result [OF assms] obtain k where "parts = map mk (rev [k..<n])" by auto
  moreover have "\<forall>j\<in>set (rev [k..<n]). j < n" by simp
  ultimately show ?thesis by blast
qed


section \<open>C1: the revert rule of refine\<close>

text \<open>
  C1 (as amended). In \<open>refine\<close>, after \<open>bestScore\<close> has been raised to the maximum of
  its old value and the score of the last state, a previous optimization is undone
  exactly when that score is 0 or below the best score; the number of delays is not
  consulted. When it is undone, the last state is the result of \<open>undo\<close>, the id of the
  optimization is inserted into \<open>badOptimizations\<close>, and \<open>reduceGlobalFailed\<close> is set
  when its name is "ReduceGlobal". Otherwise the states, the bad set and the flag stay
  as they are.
\<close>

theorem refine_revert_rule:
  assumes "previousOptimization sv = Some prev" and "states sv \<noteq> []"
  shows "bestScore (revertStep sv) = max (bestScore sv) (score (last (states sv)))
     \<and> (score (last (states sv)) = 0
          \<or> score (last (states sv)) < max (bestScore sv) (score (last (states sv)))
        \<longrightarrow> last (states (revertStep sv)) = opt_undo prev (last (states sv))
            \<and> butlast (states (revertStep sv)) = butlast (states sv)
            \<and> badOptimizations (revertStep sv) = insert (opt_id prev) (badOptimizations sv)
            \<and> (opt_name prev = ''ReduceGlobal'' \<longrightarrow> reduceGlobalFailed (revertStep sv)))
     \<and> (\<not> (score (last (states sv)) = 0
             \<or> score (last (states sv)) < max (bestScore sv) (score (last (states sv))))
        \<longrightarrow> states (revertStep sv) = states sv
            \<and> badOptimizations (revertStep sv) = badOptimizations sv
            \<and> reduceGlobalFailed (revertStep sv) = reduceGlobalFailed sv)"
proof -
  have upd: "last ((states sv)[length (states sv) - Suc 0 := x]) = x" for x
    using assms(2) by (simp add: last_list_update)
  have bl: "butlast ((states sv)[length (states sv) - Suc 0 := x]) = butlast (states sv)" for x
    by (simp add: butlast_list_update)
  show ?thesis
    using assms(1) by (simp add: revertStep_def setLastState_def Let_def upd bl)
qed

text \<open>
  The rule at two solvers with a previous optimization: a score of 3 after a best score
  of 5 (the move is undone and blacklisted), and a score of 7 (it is kept).
\<close>

theorem refine_revert_rule_witness:
  "previousOptimization (secondRound 3 0) = Some (the (previousOptimization (secondRound 3 0)))
   \<and> opt_id (the (previousOptimization (secondRound 3 0)))
        \<in> badOptimizations (revertStep (secondRound 3 0))
   \<and> weekDayPatterns (machines (last (states (secondRound 3 0))) ! 0) = [8]
   \<and> weekDayPatterns (machines (last (states (revertStep (secondRound 3 0)))) ! 0) = [9]
   \<and> previousOptimization (secondRound 7 0) = Some (the (previousOptimization (secondRound 7 0)))
   \<and> states (revertStep (secondRound 7 0)) = states (secondRound 7 0)
   \<and> badOptimizations (revertStep (secondRound 7 0)) = {}"
  using refine_revert_rule [of "secondRound 3 0" "the (previousOptimization (secondRound 3 0))"]
        refine_revert_rule [of "secondRound 7 0" "the (previousOptimization (secondRound 7 0))"]
  by (simp add: secondRound_eval example_defs model_defs eval_simps)

text \<open>
  C1 as stated fails: with 3 delays reported and a score of 10 after a best score of 5,
  the previous optimization is not undone and not blacklisted, and \<open>refine\<close> goes on
  from the lowered pattern.
\<close>

theorem noDelays_revert_counterexample:
  "previousOptimization (secondRound 10 3) \<noteq> None
   \<and> noDelays (last (states (secondRound 10 3))) > 0
   \<and> states (revertStep (secondRound 10 3)) = states (secondRound 10 3)
   \<and> badOptimizations (revertStep (secondRound 10 3)) = {}
   \<and> weekDayPatterns (machines (last (states (secondRound 10 3))) ! 0) = [8]
   \<and> weekDayPatterns (machines (last (states (refine (secondRound 10 3)))) ! 0) = [7]"
  by (simp add: secondRound_eval example_defs model_defs eval_simps)


section \<open>C2: the range of the pattern codes\<close>

text \<open>
  The run \<open>rangeRun\<close>: seventeen calls of \<open>refine\<close> on one machine and two weeks. The
  weekend of week 1 is lowered to 1 (CreateSplitWeekEnd0, then ImproveSplitWeekEnd0);
  ReduceGlobal0 then lowers week 0 only, on both sides, which leaves the weekday pattern
  8, 9; ImproveSplitWeekDay0 lowers the weekday of week 0 to 1.
\<close>

lemma rangeRun_eval:
  "rangeRun =
     \<lparr> noWeeks = 2, noMachines = 1, maxChanges = 2, noInteractions = 30,
       states =
         [exState [exMachine steppedCosts [9, 9] [9, 9] [4, 0] [0, 0]] 100 0,
          exState [exMachine steppedCosts [9, 9] [8, 8] [4, 0] [0, 0]] 50 0,
          exState [exMachine steppedCosts [9, 9] [9, 8] [4, 0] [0, 0]] 100 0,
          exState [exMachine steppedCosts [9, 9] [9, 7] [4, 0] [0, 0]] 100 0,
          exState [exMachine steppedCosts [9, 9] [9, 6] [4, 0] [0, 0]] 100 0,
          exState [exMachine steppedCosts [9, 9] [9, 5] [4, 0] [0, 0]] 100 0,
          exState [exMachine steppedCosts [9, 9] [9, 4] [4, 0] [0, 0]] 100 0,
          exState [exMachine steppedCosts [9, 9] [9, 3] [4, 0] [0, 0]] 100 0,
          exState [exMachine steppedCosts [9, 9] [9, 2] [4, 0] [0, 0]] 100 0,
          exState [exMachine steppedCosts [9, 9] [9, 1] [0, 0] [0, 0]] 100 0,
          exState [exMachine steppedCosts [8, 9] [8, 1] [0, 1] [0, 0]] 100 0,
          exState [exMachine steppedCosts [7, 9] [8, 1] [0, 1] [0, 0]] 100 0,
          exState [exMachine steppedCosts [6, 9] [8, 1] [0, 1] [0, 0]] 100 0,
          exState [exMachine steppedCosts [5, 9] [8, 1] [0, 1] [0, 0]] 100 0,
          exState [exMachine steppedCosts [4, 9] [8, 1] [0, 1] [0, 0]] 100 0,
          exState [exMachine steppedCosts [3, 9] [8, 1] [0, 1] [0, 0]] 100 0,
          exState [exMachine steppedCosts [2, 9] [8, 1] [0, 1] [0, 0]] 100 0,
          exState [exMachine steppedCosts [1, 9] [8, 1] [0, 1] [0, 0]] 100 0],
       badOptimizations = {''0-0-1-9-8_0-1-1-9-8''}, reduceGlobalFailed = False,
       previousOptimization =
         Some (mkOptimization ''ImproveSplitWeekDay0''
                 [weekDay (exState [exMachine steppedCosts [2, 9] [8, 1] [0, 1] [0, 0]] 100 0)
                    0 0 1]),
       bestScore = 100 \<rparr>"
  unfolding rangeRun_def rangeRunFeedback_def
  by (simp add: steppedCosts_def example_defs model_defs eval_simps)

lemma rangeRunLast_state:
  "last (states rangeRunLast) = exState [exMachine steppedCosts [1, 9] [8, 1] [0, 0] [0, 0]] 100 0"
  unfolding rangeRunLast_def rangeRun_eval
  by (simp add: steppedCosts_def example_defs model_defs eval_simps)

lemma rangeRunCandidates_eval:
  "rangeRunCandidates =
     [mkOptimization ''ReduceGlobalWeekEnd0''
        [weekEnd (exState [exMachine steppedCosts [1, 9] [8, 1] [0, 0] [0, 0]] 100 0) 0 0 7],
      mkOptimization ''ImproveSplitWeekDay0''
        [weekDay (exState [exMachine steppedCosts [1, 9] [8, 1] [0, 0] [0, 0]] 100 0) 0 1 8],
      mkOptimization ''CreateSplitWeekDay0''
        [weekDay (exState [exMachine steppedCosts [1, 9] [8, 1] [0, 0] [0, 0]] 100 0) 0 1 8,
         weekDay (exState [exMachine steppedCosts [1, 9] [8, 1] [0, 0] [0, 0]] 100 0) 0 0 0],
      mkOptimization ''ImproveSplitWeekEnd0''
        [weekEnd (exState [exMachine steppedCosts [1, 9] [8, 1] [0, 0] [0, 0]] 100 0) 0 0 7],
      mkOptimization ''CreateSplitWeekEnd0''
        [weekEnd (exState [exMachine steppedCosts [1, 9] [8, 1] [0, 0] [0, 0]] 100 0) 0 0 7],
      mkOptimization ''ReduceGlobal'' []]"
  unfolding rangeRunCandidates_def rangeRunLast_def rangeRun_eval
  by (simp add: steppedCosts_def example_defs model_defs eval_simps)

text \<open>
  C2. The claim fails on the code: in the next round the weekday pattern of the machine
  is 1, 9, and the generator emits CreateSplitWeekDay0 with a part that lowers week 0
  from 1 to 0 (CreateSplit has no check for code 1, unlike ImproveSplit); applying the
  move gives the weekday pattern 0, 8.
\<close>

theorem pattern_code_zero_generated:
  "weekDayPatterns (machines (last (states rangeRunLast)) ! 0) = [1, 9]
   \<and> weekEndPatterns (machines (last (states rangeRunLast)) ! 0) = [8, 1]
   \<and> map opt_name rangeRunCandidates =
       [''ReduceGlobalWeekEnd0'', ''ImproveSplitWeekDay0'', ''CreateSplitWeekDay0'',
        ''ImproveSplitWeekEnd0'', ''CreateSplitWeekEnd0'', ''ReduceGlobal'']
   \<and> map part_week (opt_parts (rangeRunCandidates ! 2)) = [1, 0]
   \<and> map part_from (opt_parts (rangeRunCandidates ! 2)) = [9, 1]
   \<and> map part_to (opt_parts (rangeRunCandidates ! 2)) = [8, 0]
   \<and> weekDayPatterns
         (machines (opt_apply (rangeRunCandidates ! 2) (last (states rangeRunLast))) ! 0) = [0, 8]"
  unfolding rangeRunCandidates_eval rangeRunLast_state
  by (simp add: exState_def exMachine_def weekDay_def weekEnd_def opt_apply_def part_apply_def
        setWeekDay_def setWeekEnd_def)


section \<open>C3: the improvement of the selected move\<close>

text \<open>
  C3 (as amended). The selection loop of \<open>refine\<close> starts from a best improvement of
  \<open>-1\<close>: a move that \<open>refine\<close> selects and applies is one of the generated candidates,
  its id is not blacklisted and its cost improvement is strictly greater than \<open>-1\<close>
  (so an improvement of 0 is accepted); and when every candidate that is not blacklisted
  has an improvement of at most \<open>-1\<close>, no move is applied in that round.
\<close>

theorem applied_move_improvement:
  "(previousOptimization (refine sv) = Some b \<longrightarrow>
      opt_costImprovement b > -1
      \<and> opt_id b \<notin> badOptimizations (revertStep sv)
      \<and> b \<in> set (generateOptimizations (revertStep sv) (last (states (revertStep sv)))))
   \<and> ((\<forall>x\<in>set (generateOptimizations (revertStep sv) (last (states (revertStep sv)))).
          opt_id x \<notin> badOptimizations (revertStep sv) \<longrightarrow> opt_costImprovement x \<le> -1)
       \<longrightarrow> previousOptimization (refine sv) = None
           \<and> states (refine sv) = states (revertStep sv))"
proof (intro conjI impI)
  let ?sv1 = "revertStep sv"
  let ?gen = "generateOptimizations ?sv1 (last (states ?sv1))"
  have prev: "previousOptimization (refine sv) = selectBest ?sv1 ?gen"
    by (simp add: refine_def applyStep_def Let_def setLastState_def split: option.splits)
  {
    assume "previousOptimization (refine sv) = Some b"
    with prev have sel: "selectBest ?sv1 ?gen = Some b" by simp
    from selectBest_Some [OF sel]
    show "opt_costImprovement b > -1" and "opt_id b \<notin> badOptimizations ?sv1"
      and "b \<in> set ?gen" by simp_all
  }
  {
    assume "\<forall>x\<in>set ?gen. opt_id x \<notin> badOptimizations ?sv1 \<longrightarrow> opt_costImprovement x \<le> -1"
    then have none: "selectBest ?sv1 ?gen = None" by (rule selectBest_None)
    with prev show "previousOptimization (refine sv) = None" by simp
    from none show "states (refine sv) = states ?sv1"
      by (simp add: refine_def applyStep_def Let_def)
  }
qed

text \<open>
  Both halves on the first round of a one-machine run: with rising costs ReduceGlobal0
  (improvement 200) is applied; with falling costs every candidate has a negative
  improvement of at least 100 and nothing is applied.
\<close>

theorem applied_move_improvement_witness:
  "previousOptimization (refine (firstRound risingCosts (feedback1 5 0 (1/2))))
     = Some (the (previousOptimization (secondRound 3 0)))
   \<and> opt_costImprovement (the (previousOptimization (secondRound 3 0))) = 200
   \<and> previousOptimization (refine (firstRound fallingCosts (feedback1 5 0 (1/2)))) = None
   \<and> states (refine (firstRound fallingCosts (feedback1 5 0 (1/2))))
       = states (firstRound fallingCosts (feedback1 5 0 (1/2)))"
  using applied_move_improvement [of "firstRound risingCosts (feedback1 5 0 (1/2))"
           "the (previousOptimization (secondRound 3 0))"]
        applied_move_improvement [of "firstRound fallingCosts (feedback1 5 0 (1/2))"]
  unfolding firstRound_eval secondRound_eval
  by (simp add: example_defs model_defs eval_simps)

text \<open>
  C3 as stated fails: with equal costs for all codes every candidate has improvement 0,
  and the first round applies ReduceGlobal0 all the same (the patterns go from 9 to 8).
\<close>

theorem zero_improvement_applied_counterexample:
  "previousOptimization (refine (firstRound flatCosts (feedback1 100 0 (1/2)))) \<noteq> None
   \<and> opt_costImprovement
       (the (previousOptimization (refine (firstRound flatCosts (feedback1 100 0 (1/2)))))) = 0
   \<and> weekDayPatterns
       (machines (last (states (firstRound flatCosts (feedback1 100 0 (1/2))))) ! 0) = [9]
   \<and> weekDayPatterns
       (machines (last (states (refine (firstRound flatCosts (feedback1 100 0 (1/2)))))) ! 0) = [8]"
  unfolding firstRound_eval
  by (simp add: example_defs model_defs eval_simps)


section \<open>C4: the change budget\<close>






section \<open>C5: the ImproveSplit candidates\<close>









section \<open>C6 and C7: the guards of ReduceGlobalWeekDay and ReduceGlobalWeekEnd\<close>

lemma reduceGlobalScan_fst:
  "fst (reduceGlobalScan patterns lds js can s) = (can \<and> (\<forall>j\<in>set js. patterns ! j = patterns ! 0))"
  by (induction js arbitrary: s) auto

lemma reduceGlobalScan_snd:
  "\<forall>j\<in>set js. patterns ! j = patterns ! 0 \<Longrightarrow>
     snd (reduceGlobalScan patterns lds js can s) = s + sum_list (map (\<lambda>j. lds ! j) js)"
  by (induction js arbitrary: s) auto



lemma canReduceGlobalWeekEnd_iff:
  assumes "-1 \<le> lastEnd"
  shows "canReduceGlobalWeekEnd sv machine lastEnd \<longleftrightarrow>
           lastEnd \<noteq> -1
           \<and> (\<forall>j<nat (lastEnd + 1). weekEndPatterns machine ! j = weekEndPatterns machine ! 0)
           \<and> (noInteractions sv \<noteq> 300 \<longrightarrow>
                (\<Sum>j = 1..<nat (lastEnd + 1). loads machine ! j) / real_of_int (lastEnd + 1) \<le> 0.75)"
proof -
  let ?scan = "reduceGlobalScan (weekEndPatterns machine) (loads machine)
                 [1..<nat (lastEnd + 1)] (lastEnd \<noteq> -1) 0"
  let ?const = "\<forall>j<nat (lastEnd + 1). weekEndPatterns machine ! j = weekEndPatterns machine ! 0"
  have can: "canReduceGlobalWeekEnd sv machine lastEnd \<longleftrightarrow>
               \<not> (noInteractions sv \<noteq> 300 \<and> quotient_gt (snd ?scan) (lastEnd + 1) 0.75) \<and> fst ?scan"
    by (auto simp: canReduceGlobalWeekEnd_def split: prod.splits)
  have f: "fst ?scan \<longleftrightarrow> lastEnd \<noteq> -1 \<and> ?const"
  proof -
    have "(\<forall>j\<in>set [1..<nat (lastEnd + 1)]. weekEndPatterns machine ! j = weekEndPatterns machine ! 0)
            \<longleftrightarrow> ?const"
    proof
      assume a: "\<forall>j\<in>set [1..<nat (lastEnd + 1)]. weekEndPatterns machine ! j = weekEndPatterns machine ! 0"
      show ?const
      proof (intro allI impI)
        fix j assume "j < nat (lastEnd + 1)"
        show "weekEndPatterns machine ! j = weekEndPatterns machine ! 0"
        proof (cases "j = 0")
          case True then show ?thesis by simp
        next
          case False
          with \<open>j < nat (lastEnd + 1)\<close> have "j \<in> set [1..<nat (lastEnd + 1)]" by simp
          with a show ?thesis by blast
        qed
      qed
    next
      assume c: ?const
      show "\<forall>j\<in>set [1..<nat (lastEnd + 1)]. weekEndPatterns machine ! j = weekEndPatterns machine ! 0"
      proof
        fix j assume "j \<in> set [1..<nat (lastEnd + 1)]"
        then have "j < nat (lastEnd + 1)" by simp
        with c show "weekEndPatterns machine ! j = weekEndPatterns machine ! 0" by blast
      qed
    qed
    then show ?thesis unfolding reduceGlobalScan_fst by simp
  qed
  show ?thesis
  proof (cases "lastEnd \<noteq> -1 \<and> ?const")
    case True
    have c: "\<forall>j\<in>set [1..<nat (lastEnd + 1)].
               weekEndPatterns machine ! j = weekEndPatterns machine ! 0"
    proof
      fix j assume "j \<in> set [1..<nat (lastEnd + 1)]"
      then have "j < nat (lastEnd + 1)" by simp
      with True show "weekEndPatterns machine ! j = weekEndPatterns machine ! 0" by blast
    qed
    have s: "snd ?scan = (\<Sum>j = 1..<nat (lastEnd + 1). loads machine ! j)"
      unfolding reduceGlobalScan_snd [OF c] by (simp add: interv_sum_list_conv_sum_set_nat)
    from True assms have nz: "lastEnd + 1 \<noteq> 0" by linarith
    have q: "quotient_gt (snd ?scan) (lastEnd + 1) 0.75 \<longleftrightarrow>
               \<not> (\<Sum>j = 1..<nat (lastEnd + 1). loads machine ! j) / real_of_int (lastEnd + 1) \<le> 0.75"
      unfolding s quotient_gt_def using nz by (simp add: not_le)
    from True have t: "fst ?scan" unfolding f .
    show ?thesis unfolding can q using True t by blast
  next
    case False
    then show ?thesis unfolding can f by blast
  qed
qed


lemma reduceGlobalWeekEnd_generated:
  assumes "getLastOperatingWeeks sv (machines state ! i) = (lastDay, lastEnd)"
  shows "(\<exists>x\<in>set (machineOptimizations sv state i).
            opt_name x = ''ReduceGlobalWeekEnd'' @ string_of_nat i)
         \<longleftrightarrow> canReduceGlobalWeekEnd sv (machines state ! i) lastEnd"
  unfolding machineOptimizations_segments [OF assms] canReduceGlobal_conv [OF assms]
  by (auto dest: improveSplitWeekDay_name improveSplitWeekEnd_name
                 createSplitWeekDay_name createSplitWeekEnd_name)





text \<open>
  C7. The weekend guard is not the mirror image of the weekday guard: its scan starts at
  week 1 (\<open>canReduceGlobalWeekEnd_iff\<close>), so the load of week 0 is missing from the sum
  that is divided by \<open>lastOperatingWeekEnd + 1\<close>. On the first round of a one-machine,
  two-week run with loads 1 and 3/4 the mean load of the prefix is 7/8, above the
  threshold 0.75: the weekday candidate is rejected, the weekend candidate is generated.
\<close>

theorem reduceGlobalWeekEnd_skips_week0:
  "''ReduceGlobalWeekEnd0''
     \<in> set (map opt_name (generateOptimizations (twoWeekRound risingCosts (feedback2 5 1 (3/4)))
                             (last (states (twoWeekRound risingCosts (feedback2 5 1 (3/4)))))))
   \<and> ''ReduceGlobalWeekDay0''
     \<notin> set (map opt_name (generateOptimizations (twoWeekRound risingCosts (feedback2 5 1 (3/4)))
                             (last (states (twoWeekRound risingCosts (feedback2 5 1 (3/4)))))))
   \<and> getLastOperatingWeeks (twoWeekRound risingCosts (feedback2 5 1 (3/4)))
        (machines (last (states (twoWeekRound risingCosts (feedback2 5 1 (3/4))))) ! 0) = (1, 1)
   \<and> noInteractions (twoWeekRound risingCosts (feedback2 5 1 (3/4))) \<noteq> 300
   \<and> (loads (machines (last (states (twoWeekRound risingCosts (feedback2 5 1 (3/4))))) ! 0) ! 0
        + loads (machines (last (states (twoWeekRound risingCosts (feedback2 5 1 (3/4))))) ! 0) ! 1)
       / 2 > 0.75"
  unfolding twoWeekRound_eval
  by (simp add: example_defs model_defs eval_simps)


section \<open>C8: Shutdown is generated in the last round only\<close>

lemma shutdown_generated_iff:
  "(\<exists>x\<in>set (generateOptimizations sv state). opt_name x = ''Shutdown'')
     \<longleftrightarrow> int (length (states sv)) = noInteractions sv"
proof
  assume "\<exists>x\<in>set (generateOptimizations sv state). opt_name x = ''Shutdown''"
  then obtain x where x: "x \<in> set (generateOptimizations sv state)" and n: "opt_name x = ''Shutdown''"
    by blast
  show "int (length (states sv)) = noInteractions sv"
  proof (rule ccontr)
    assume ne: "int (length (states sv)) \<noteq> noInteractions sv"
    with x have "(\<exists>i. x \<in> set (machineOptimizations sv state i))
                  \<or> opt_name x = ''ReduceGlobal''"
      unfolding generateOptimizations_def by (auto split: if_splits)
    with n machineOptimizations_not_Shutdown show False by auto
  qed
next
  assume "int (length (states sv)) = noInteractions sv"
  then have "mkOptimization ''Shutdown''
               (concat (map (shutdownMachineParts sv state) [0..<nat (noMachines sv)]))
             \<in> set (generateOptimizations sv state)"
    by (simp add: generateOptimizations_def)
  then show "\<exists>x\<in>set (generateOptimizations sv state). opt_name x = ''Shutdown''"
    by (rule rev_bexI) simp
qed

lemma readFeedback_frame [simp]:
  "noInteractions (readFeedback sv i fb) = noInteractions sv"
  "length (states (readFeedback sv i fb)) = length (states sv)"
  by (simp_all add: readFeedback_def)

lemma pushState_frame [simp]:
  "noInteractions (pushState sv i) = noInteractions sv"
  "length (states (pushState sv i)) = Suc (length (states sv))"
  by (simp_all add: pushState_def)

lemma revertStep_frame [simp]:
  "noInteractions (revertStep sv) = noInteractions sv"
  "length (states (revertStep sv)) = length (states sv)"
  by (simp_all add: revertStep_def setLastState_def Let_def split: option.splits)

lemma applyStep_frame [simp]:
  "noInteractions (applyStep sv) = noInteractions sv"
  "length (states (applyStep sv)) = length (states sv)"
  by (simp_all add: applyStep_def setLastState_def Let_def split: option.splits)

lemma refine_frame [simp]:
  "noInteractions (refine sv) = noInteractions sv"
  "length (states (refine sv)) = length (states sv)"
  by (simp_all add: refine_def)

text \<open>
  C8. Along the interaction loop started with \<open>i + 1\<close> states (the main program starts
  it with \<open>i = 0\<close> and the single initial state), every call of \<open>refine\<close> has an
  interaction number \<open>k\<close> between \<open>i + 2\<close> and the number of interactions, and its
  candidates contain a move named "Shutdown" exactly when \<open>k\<close> equals the number of
  interactions, that is, in the round that builds the last grid sent to the judge.
\<close>

theorem shutdown_only_in_last_round:
  assumes "length (states sv) = Suc i" and "(k, opts) \<in> set (generatedTrace i fbs sv)"
  shows "i + 2 \<le> k \<and> int k \<le> noInteractions sv
         \<and> ((\<exists>x\<in>set opts. opt_name x = ''Shutdown'') \<longleftrightarrow> int k = noInteractions sv)"
  using assms
proof (induction fbs arbitrary: i sv)
  case Nil
  then show ?case by simp
next
  case (Cons fb fbs)
  let ?sv1 = "pushState (readFeedback sv i fb) i"
  from Cons.prems(2) have run: "int i < noInteractions sv" and more: "int i \<noteq> noInteractions sv - 1"
    by (auto split: if_splits)
  from Cons.prems(2) run more
  have "(k, opts) = (i + 2, generateOptimizations (revertStep ?sv1) (last (states (revertStep ?sv1))))
        \<or> (k, opts) \<in> set (generatedTrace (Suc i) fbs (refine ?sv1))"
    by simp
  then show ?case
  proof
    assume "(k, opts) = (i + 2, generateOptimizations (revertStep ?sv1) (last (states (revertStep ?sv1))))"
    then have k: "k = i + 2"
      and o: "opts = generateOptimizations (revertStep ?sv1) (last (states (revertStep ?sv1)))"
      by simp_all
    have len: "int (length (states (revertStep ?sv1))) = int (i + 2)"
      using Cons.prems(1) by simp
    have "(\<exists>x\<in>set opts. opt_name x = ''Shutdown'') \<longleftrightarrow> int k = noInteractions sv"
      unfolding o shutdown_generated_iff len k by simp
    with k run more show ?thesis by simp
  next
    assume tl: "(k, opts) \<in> set (generatedTrace (Suc i) fbs (refine ?sv1))"
    have "length (states (refine ?sv1)) = Suc (Suc i)" using Cons.prems(1) by simp
    from Cons.IH [OF this tl] show ?thesis by simp
  qed
qed

lemma threeRounds_eval:
  "map (\<lambda>r. (fst r, map opt_name (snd r))) threeRounds =
     [(2, [''ReduceGlobal0'', ''ReduceGlobalWeekDay0'', ''ReduceGlobalWeekEnd0'',
           ''ImproveSplitWeekDay0'', ''ImproveSplitWeekEnd0'', ''ReduceGlobal'']),
      (3, [''ReduceGlobal0'', ''ReduceGlobalWeekDay0'', ''ReduceGlobalWeekEnd0'',
           ''ImproveSplitWeekDay0'', ''ImproveSplitWeekEnd0'', ''ReduceGlobal'', ''Shutdown''])]"
  unfolding threeRounds_def
  by (simp add: example_defs model_defs eval_simps)

text \<open>
  A run of three interactions: \<open>refine\<close> is called in the rounds 2 and 3, and only the
  candidates of round 3 contain Shutdown.
\<close>

theorem shutdown_only_in_last_round_witness:
  "length (states (initialSolver 1 1 0 3 [risingCosts])) = Suc 0
   \<and> map fst threeRounds = [2, 3]
   \<and> \<not> (\<exists>x\<in>set (snd (threeRounds ! 0)). opt_name x = ''Shutdown'')
   \<and> (\<exists>x\<in>set (snd (threeRounds ! 1)). opt_name x = ''Shutdown'')"
proof -
  let ?sv = "initialSolver 1 1 0 3 [risingCosts]"
  let ?fbs = "[feedback1 5 0 (1/2), feedback1 6 0 (1/2), feedback1 7 0 (1/2)]"
  have l: "length (states ?sv) = Suc 0"
    by (simp add: example_defs model_defs eval_simps)
  have n: "noInteractions ?sv = 3"
    by (simp add: example_defs model_defs eval_simps)
  from threeRounds_eval have "map fst (map (\<lambda>r. (fst r, map opt_name (snd r))) threeRounds) = [2, 3]"
    by simp
  then have ks: "map fst threeRounds = [2, 3]" by (simp add: comp_def)
  then have len: "length threeRounds = 2" by (metis length_map length_Cons list.size(3) numeral_2_eq_2)
  from ks len have k0: "fst (threeRounds ! 0) = 2" and k1: "fst (threeRounds ! 1) = 3"
    by (metis nth_map nth_Cons_0 zero_less_numeral, metis nth_map nth_Cons_0 nth_Cons_Suc One_nat_def one_less_numeral_iff semiring_norm(76))
  from len have "threeRounds ! 0 \<in> set threeRounds" and "threeRounds ! 1 \<in> set threeRounds"
    by simp_all
  then have m0: "(fst (threeRounds ! 0), snd (threeRounds ! 0)) \<in> set (generatedTrace 0 ?fbs ?sv)"
    and m1: "(fst (threeRounds ! 1), snd (threeRounds ! 1)) \<in> set (generatedTrace 0 ?fbs ?sv)"
    by (simp_all only: threeRounds_def prod.collapse)
  from shutdown_only_in_last_round [OF l m0] k0 n
  have a: "\<not> (\<exists>x\<in>set (snd (threeRounds ! 0)). opt_name x = ''Shutdown'')" by simp
  from shutdown_only_in_last_round [OF l m1] k1 n
  have b: "\<exists>x\<in>set (snd (threeRounds ! 1)). opt_name x = ''Shutdown''" by simp
  from l ks a b show ?thesis by blast
qed


section \<open>C9: undo after apply\<close>

lemma sameFrame_setWeekDay: "sameFrame s t \<Longrightarrow> sameFrame s (setWeekDay t m w v)"
  by (simp add: sameFrame_def machines_setWeekDay)

lemma sameFrame_setWeekEnd: "sameFrame s t \<Longrightarrow> sameFrame s (setWeekEnd t m w v)"
  by (simp add: sameFrame_def machines_setWeekEnd)

lemma agreesOutside_setWeekDay:
  assumes "agreesOutside S s t" and "S - {(WEEK_DAY, m, w)} \<subseteq> S'"
    and "(WEEK_DAY, m, w) \<in> S' \<or> v = weekDayPatterns (machines s ! m) ! w"
  shows "agreesOutside S' s (setWeekDay t m w v)"
proof -
  from assms(1) have fr: "sameFrame s t" by (simp add: agreesOutside_def)
  then have len: "length (machines t) = length (machines s)" by (simp add: sameFrame_def)
  show ?thesis
    unfolding agreesOutside_def
  proof (intro conjI allI impI)
    show "sameFrame s (setWeekDay t m w v)" using fr by (rule sameFrame_setWeekDay)
  next
    fix m' w'
    assume m': "m' < length (machines s)" and w': "w' < length (weekDayPatterns (machines s ! m'))"
      and out: "(WEEK_DAY, m', w') \<notin> S'"
    from m' len have mt: "m' < length (machines t)" by simp
    from fr m' w' have wt: "w' < length (weekDayPatterns (machines t ! m'))"
      by (simp add: sameFrame_def)
    show "weekDayPatterns (machines (setWeekDay t m w v) ! m') ! w'
            = weekDayPatterns (machines s ! m') ! w'"
    proof (cases "m' = m \<and> w' = w")
      case True
      with out assms(3) have "v = weekDayPatterns (machines s ! m') ! w'" by blast
      with True mt wt show ?thesis by (simp add: machines_setWeekDay)
    next
      case False
      with out assms(2) have "(WEEK_DAY, m', w') \<notin> S" by blast
      with assms(1) m' w'
      have "weekDayPatterns (machines t ! m') ! w' = weekDayPatterns (machines s ! m') ! w'"
        by (simp add: agreesOutside_def)
      with False mt show ?thesis by (auto simp: machines_setWeekDay)
    qed
  next
    fix m' w'
    assume m': "m' < length (machines s)" and w': "w' < length (weekEndPatterns (machines s ! m'))"
      and out: "(WEEK_END, m', w') \<notin> S'"
    from m' len have mt: "m' < length (machines t)" by simp
    from out assms(2) have "(WEEK_END, m', w') \<notin> S" by blast
    with assms(1) m' w'
    have "weekEndPatterns (machines t ! m') ! w' = weekEndPatterns (machines s ! m') ! w'"
      by (simp add: agreesOutside_def)
    with mt show "weekEndPatterns (machines (setWeekDay t m w v) ! m') ! w'
                    = weekEndPatterns (machines s ! m') ! w'"
      by (auto simp: machines_setWeekDay)
  qed
qed

lemma agreesOutside_setWeekEnd:
  assumes "agreesOutside S s t" and "S - {(WEEK_END, m, w)} \<subseteq> S'"
    and "(WEEK_END, m, w) \<in> S' \<or> v = weekEndPatterns (machines s ! m) ! w"
  shows "agreesOutside S' s (setWeekEnd t m w v)"
proof -
  from assms(1) have fr: "sameFrame s t" by (simp add: agreesOutside_def)
  then have len: "length (machines t) = length (machines s)" by (simp add: sameFrame_def)
  show ?thesis
    unfolding agreesOutside_def
  proof (intro conjI allI impI)
    show "sameFrame s (setWeekEnd t m w v)" using fr by (rule sameFrame_setWeekEnd)
  next
    fix m' w'
    assume m': "m' < length (machines s)" and w': "w' < length (weekEndPatterns (machines s ! m'))"
      and out: "(WEEK_END, m', w') \<notin> S'"
    from m' len have mt: "m' < length (machines t)" by simp
    from fr m' w' have wt: "w' < length (weekEndPatterns (machines t ! m'))"
      by (simp add: sameFrame_def)
    show "weekEndPatterns (machines (setWeekEnd t m w v) ! m') ! w'
            = weekEndPatterns (machines s ! m') ! w'"
    proof (cases "m' = m \<and> w' = w")
      case True
      with out assms(3) have "v = weekEndPatterns (machines s ! m') ! w'" by blast
      with True mt wt show ?thesis by (simp add: machines_setWeekEnd)
    next
      case False
      with out assms(2) have "(WEEK_END, m', w') \<notin> S" by blast
      with assms(1) m' w'
      have "weekEndPatterns (machines t ! m') ! w' = weekEndPatterns (machines s ! m') ! w'"
        by (simp add: agreesOutside_def)
      with False mt show ?thesis by (auto simp: machines_setWeekEnd)
    qed
  next
    fix m' w'
    assume m': "m' < length (machines s)" and w': "w' < length (weekDayPatterns (machines s ! m'))"
      and out: "(WEEK_DAY, m', w') \<notin> S'"
    from m' len have mt: "m' < length (machines t)" by simp
    from out assms(2) have "(WEEK_DAY, m', w') \<notin> S" by blast
    with assms(1) m' w'
    have "weekDayPatterns (machines t ! m') ! w' = weekDayPatterns (machines s ! m') ! w'"
      by (simp add: agreesOutside_def)
    with mt show "weekDayPatterns (machines (setWeekEnd t m w v) ! m') ! w'
                    = weekDayPatterns (machines s ! m') ! w'"
      by (auto simp: machines_setWeekEnd)
  qed
qed

lemma agreesOutside_part_apply:
  assumes "agreesOutside S s t"
  shows "agreesOutside (insert (partSlot p) S) s (part_apply p t)"
proof (cases "part_type p")
  case WEEK_DAY
  then show ?thesis
    unfolding part_apply_def partSlot_def
    using agreesOutside_setWeekDay [OF assms, of "part_machine p" "part_week p"
            "insert (WEEK_DAY, part_machine p, part_week p) S" "part_to p"]
    by auto
next
  case WEEK_END
  then show ?thesis
    unfolding part_apply_def partSlot_def
    using agreesOutside_setWeekEnd [OF assms, of "part_machine p" "part_week p"
            "insert (WEEK_END, part_machine p, part_week p) S" "part_to p"]
    by auto
qed

lemma agreesOutside_part_undo:
  assumes "agreesOutside S s t" and "snapshotOf s p"
  shows "agreesOutside (S - {partSlot p}) s (part_undo p t)"
proof (cases "part_type p")
  case WEEK_DAY
  with assms(2) have "part_from p = weekDayPatterns (machines s ! part_machine p) ! part_week p"
    by (simp add: snapshotOf_def)
  with WEEK_DAY show ?thesis
    unfolding part_undo_def partSlot_def
    using agreesOutside_setWeekDay [OF assms(1), of "part_machine p" "part_week p"
            "S - {(WEEK_DAY, part_machine p, part_week p)}" "part_from p"]
    by auto
next
  case WEEK_END
  with assms(2) have "part_from p = weekEndPatterns (machines s ! part_machine p) ! part_week p"
    by (simp add: snapshotOf_def)
  with WEEK_END show ?thesis
    unfolding part_undo_def partSlot_def
    using agreesOutside_setWeekEnd [OF assms(1), of "part_machine p" "part_week p"
            "S - {(WEEK_END, part_machine p, part_week p)}" "part_from p"]
    by auto
qed

lemma agreesOutside_fold_apply:
  "agreesOutside S s t \<Longrightarrow> agreesOutside (S \<union> partSlot ` set ps) s (fold part_apply ps t)"
proof (induction ps arbitrary: S t)
  case Nil
  then show ?case by simp
next
  case (Cons p ps)
  from agreesOutside_part_apply [OF Cons.prems]
  have "agreesOutside (insert (partSlot p) S) s (part_apply p t)" .
  from Cons.IH [OF this] show ?case by simp
qed

lemma agreesOutside_fold_undo:
  "agreesOutside S s t \<Longrightarrow> \<forall>p\<in>set ps. snapshotOf s p \<Longrightarrow>
     agreesOutside (S - partSlot ` set ps) s (fold part_undo ps t)"
proof (induction ps arbitrary: S t)
  case Nil
  then show ?case by simp
next
  case (Cons p ps)
  from Cons.prems have "snapshotOf s p" by simp
  from agreesOutside_part_undo [OF Cons.prems(1) this]
  have "agreesOutside (S - {partSlot p}) s (part_undo p t)" .
  moreover from Cons.prems have "\<forall>q\<in>set ps. snapshotOf s q" by simp
  ultimately have "agreesOutside (S - {partSlot p} - partSlot ` set ps) s
                     (fold part_undo ps (part_undo p t))"
    by (rule Cons.IH)
  moreover have "S - {partSlot p} - partSlot ` set ps = S - partSlot ` set (p # ps)" by auto
  ultimately show ?case by simp
qed

lemma agreesOutside_refl: "agreesOutside S s s"
  by (simp add: agreesOutside_def sameFrame_def)

lemma agreesOutside_empty_eq:
  assumes "agreesOutside {} s t"
  shows "t = s"
proof -
  from assms have fr: "sameFrame s t" by (simp add: agreesOutside_def)
  have "machines t = machines s"
  proof (rule nth_equalityI)
    show "length (machines t) = length (machines s)" using fr by (simp add: sameFrame_def)
  next
    fix m assume "m < length (machines t)"
    with fr have m: "m < length (machines s)" by (simp add: sameFrame_def)
    have "weekDayPatterns (machines t ! m) = weekDayPatterns (machines s ! m)"
      using assms fr m by (intro nth_equalityI) (simp_all add: agreesOutside_def sameFrame_def)
    moreover have "weekEndPatterns (machines t ! m) = weekEndPatterns (machines s ! m)"
      using assms fr m by (intro nth_equalityI) (simp_all add: agreesOutside_def sameFrame_def)
    ultimately show "machines t ! m = machines s ! m"
      using fr m by (simp add: sameFrame_def Machine.equality)
  qed
  with fr show ?thesis by (simp add: sameFrame_def State.equality)
qed

lemma snapshot_reduceGlobalMachineParts:
  assumes "i < length (machines state)"
    and "nat (d + 1) \<le> length (weekDayPatterns (machines state ! i))"
    and "nat (e + 1) \<le> length (weekEndPatterns (machines state ! i))"
  shows "\<forall>p\<in>set (reduceGlobalMachineParts state i d e). snapshotOf state p"
proof
  fix p assume "p \<in> set (reduceGlobalMachineParts state i d e)"
  then obtain j where j: "j < nat (min d e + 1)"
    and p: "p = weekDay state i j (weekDayPatterns (machines state ! i) ! j - 1)
            \<or> p = weekEnd state i j (weekEndPatterns (machines state ! i) ! j - 1)"
    unfolding reduceGlobalMachineParts_def by auto
  from j assms have "j < length (weekDayPatterns (machines state ! i))"
    and "j < length (weekEndPatterns (machines state ! i))" by auto
  with p assms(1) show "snapshotOf state p"
    by (auto intro: snapshotOf_weekDay snapshotOf_weekEnd)
qed

lemma snapshot_reduceGlobalWeekDayParts:
  assumes "i < length (machines state)"
    and "nat (d + 1) \<le> length (weekDayPatterns (machines state ! i))"
  shows "\<forall>p\<in>set (reduceGlobalWeekDayParts state i d). snapshotOf state p"
  unfolding reduceGlobalWeekDayParts_def
  using assms by (intro snapshot_weekDay_parts [where n = "nat (d + 1)"]) simp_all

lemma snapshot_reduceGlobalWeekEndParts:
  assumes "i < length (machines state)"
    and "nat (e + 1) \<le> length (weekEndPatterns (machines state ! i))"
  shows "\<forall>p\<in>set (reduceGlobalWeekEndParts state i e). snapshotOf state p"
  unfolding reduceGlobalWeekEndParts_def
  using assms by (intro snapshot_weekEnd_parts [where n = "nat (e + 1)"]) simp_all

lemma snapshot_improveSplitWeekDay:
  assumes "i < length (machines state)" and "0 \<le> d"
    and "nat (d + 1) \<le> length (weekDayPatterns (machines state ! i))"
    and "x \<in> set (improveSplitWeekDay state i d)"
  shows "\<forall>p\<in>set (opt_parts x). snapshotOf state p"
proof -
  let ?wd = "weekDayPatterns (machines state ! i)"
  from assms(4) obtain split where sp: "split \<in> set (existingSplits ?wd d)"
    and x: "x = mkOptimization (''ImproveSplitWeekDay'' @ string_of_nat i)
                  (map (\<lambda>j. weekDay state i j (?wd ! j - 1)) [fst split..<fst split + snd split])"
    unfolding improveSplitWeekDay_def Let_def set_concat set_map by (auto split: if_splits)
  from existingSplits_runs [OF assms(2)]
  have runs: "runsOfEqualCode ?wd (nat (d + 1)) (existingSplits ?wd d)" .
  have "\<forall>j\<in>set [fst split..<fst split + snd split]. j < nat (d + 1)"
    using runsOfEqualCode_within [OF runs sp] by blast
  with assms(1,3) show ?thesis
    unfolding x opt_parts_mkOptimization by (rule snapshot_weekDay_parts)
qed

lemma snapshot_improveSplitWeekEnd:
  assumes "i < length (machines state)" and "0 \<le> e"
    and "nat (e + 1) \<le> length (weekEndPatterns (machines state ! i))"
    and "x \<in> set (improveSplitWeekEnd state i e)"
  shows "\<forall>p\<in>set (opt_parts x). snapshotOf state p"
proof -
  let ?we = "weekEndPatterns (machines state ! i)"
  from assms(4) obtain split where sp: "split \<in> set (existingSplits ?we e)"
    and x: "x = mkOptimization (''ImproveSplitWeekEnd'' @ string_of_nat i)
                  (map (\<lambda>j. weekEnd state i j (?we ! j - 1)) [fst split..<fst split + snd split])"
    unfolding improveSplitWeekEnd_def Let_def set_concat set_map by (auto split: if_splits)
  from existingSplits_runs [OF assms(2)]
  have runs: "runsOfEqualCode ?we (nat (e + 1)) (existingSplits ?we e)" .
  have "\<forall>j\<in>set [fst split..<fst split + snd split]. j < nat (e + 1)"
    using runsOfEqualCode_within [OF runs sp] by blast
  with assms(1,3) show ?thesis
    unfolding x opt_parts_mkOptimization by (rule snapshot_weekEnd_parts)
qed

lemma snapshot_createSplitWeekDay:
  assumes "i < length (machines state)"
    and "nat (d + 1) \<le> length (weekDayPatterns (machines state ! i))"
    and "x \<in> set (createSplitWeekDay sv state i d)"
  shows "\<forall>p\<in>set (opt_parts x). snapshotOf state p"
proof -
  let ?m = "machines state ! i"
  obtain parts np where loop:
    "createSplitLoop (\<lambda>j. weekDay state i j (weekDayPatterns ?m ! j - 1)) (loads ?m) d
       (nat (d + 1)) 0 [] (weekDayPatterns ?m) = (parts, np)"
    by (cases "createSplitLoop (\<lambda>j. weekDay state i j (weekDayPatterns ?m ! j - 1)) (loads ?m)
                 d (nat (d + 1)) 0 [] (weekDayPatterns ?m)")
  from assms(3) have x: "x = mkOptimization (''CreateSplitWeekDay'' @ string_of_nat i) parts"
    unfolding createSplitWeekDay_def Let_def loop prod.case by (auto split: if_splits)
  from createSplitLoop_below [OF loop] obtain js where
    p: "parts = map (\<lambda>j. weekDay state i j (weekDayPatterns ?m ! j - 1)) js"
    and b: "\<forall>j\<in>set js. j < nat (d + 1)" by blast
  from assms(1,2) b show ?thesis
    unfolding x opt_parts_mkOptimization p by (rule snapshot_weekDay_parts)
qed

lemma snapshot_createSplitWeekEnd:
  assumes "i < length (machines state)"
    and "nat (e + 1) \<le> length (weekEndPatterns (machines state ! i))"
    and "x \<in> set (createSplitWeekEnd sv state i d e)"
  shows "\<forall>p\<in>set (opt_parts x). snapshotOf state p"
proof -
  let ?m = "machines state ! i"
  obtain parts np where loop:
    "createSplitLoop (\<lambda>j. weekEnd state i j (weekEndPatterns ?m ! j - 1)) (loads ?m) d
       (nat (e + 1)) 0 [] (weekEndPatterns ?m) = (parts, np)"
    by (cases "createSplitLoop (\<lambda>j. weekEnd state i j (weekEndPatterns ?m ! j - 1)) (loads ?m)
                 d (nat (e + 1)) 0 [] (weekEndPatterns ?m)")
  from assms(3) have x: "x = mkOptimization (''CreateSplitWeekEnd'' @ string_of_nat i) parts"
    unfolding createSplitWeekEnd_def Let_def loop prod.case by (auto split: if_splits)
  from createSplitLoop_below [OF loop] obtain js where
    p: "parts = map (\<lambda>j. weekEnd state i j (weekEndPatterns ?m ! j - 1)) js"
    and b: "\<forall>j\<in>set js. j < nat (e + 1)" by blast
  from assms(1,2) b show ?thesis
    unfolding x opt_parts_mkOptimization p by (rule snapshot_weekEnd_parts)
qed

lemma snapshot_shutdownLoop:
  assumes "shutdownLoop state i lds n (a, b, c) = (a', b', c')"
    and "i < length (machines state)"
    and "n \<le> length (weekDayPatterns (machines state ! i))"
    and "n \<le> length (weekEndPatterns (machines state ! i))"
    and "\<forall>p\<in>set a \<union> set b \<union> set c. snapshotOf state p"
  shows "\<forall>p\<in>set a' \<union> set b' \<union> set c'. snapshotOf state p"
  using assms
proof (induction n arbitrary: a b c)
  case 0
  then show ?case by simp
next
  case (Suc n)
  show ?case
  proof (cases "lds ! n > 0")
    case True
    with Suc.prems(1) have "a' = a" "b' = b" "c' = c" by simp_all
    with Suc.prems(5) show ?thesis by simp
  next
    case False
    with Suc.prems(1)
    have loop: "shutdownLoop state i lds n
                  (a @ [weekDay state i n 1, weekEnd state i n 1],
                   b @ [weekDay state i n 1], c @ [weekEnd state i n 1]) = (a', b', c')"
      by simp
    from Suc.prems(2,3) have d: "snapshotOf state (weekDay state i n 1)"
      by (intro snapshotOf_weekDay) simp_all
    from Suc.prems(2,4) have e: "snapshotOf state (weekEnd state i n 1)"
      by (intro snapshotOf_weekEnd) simp_all
    from Suc.prems(5) d e
    have acc: "\<forall>p\<in>set (a @ [weekDay state i n 1, weekEnd state i n 1])
                  \<union> set (b @ [weekDay state i n 1]) \<union> set (c @ [weekEnd state i n 1]).
                 snapshotOf state p"
      by auto
    from Suc.prems(3,4) have "n \<le> length (weekDayPatterns (machines state ! i))"
      and "n \<le> length (weekEndPatterns (machines state ! i))" by simp_all
    from Suc.IH [OF loop Suc.prems(2) this acc] show ?thesis .
  qed
qed

lemma snapshot_shutdownMachineParts:
  assumes "i < length (machines state)"
    and "length (weekDayPatterns (machines state ! i)) = nat (noWeeks sv)"
    and "length (weekEndPatterns (machines state ! i)) = nat (noWeeks sv)"
  shows "\<forall>p\<in>set (shutdownMachineParts sv state i). snapshotOf state p"
proof -
  let ?m = "machines state ! i"
  obtain d e where de: "getLastOperatingWeeks sv ?m = (d, e)"
    by (cases "getLastOperatingWeeks sv ?m")
  obtain a b c where loop:
    "shutdownLoop state i (loads ?m) (nat (max d e + 1)) ([], [], []) = (a, b, c)"
    by (cases "shutdownLoop state i (loads ?m) (nat (max d e + 1)) ([], [], [])")
  from getLastOperatingWeeks_lt [OF de] have "nat (max d e + 1) \<le> nat (noWeeks sv)" by auto
  with assms have "nat (max d e + 1) \<le> length (weekDayPatterns ?m)"
    and "nat (max d e + 1) \<le> length (weekEndPatterns ?m)" by simp_all
  then have abc: "\<forall>p\<in>set a \<union> set b \<union> set c. snapshotOf state p"
    using snapshot_shutdownLoop [OF loop assms(1)] by simp
  have "set (shutdownMachineParts sv state i) \<subseteq> set a \<union> set b \<union> set c"
    unfolding shutdownMachineParts_def Let_def de loop prod.case by auto
  with abc show ?thesis by blast
qed


lemma snapshot_machineOptimizations:
  assumes "i < length (machines state)"
    and "length (weekDayPatterns (machines state ! i)) = nat (noWeeks sv)"
    and "length (weekEndPatterns (machines state ! i)) = nat (noWeeks sv)"
    and "x \<in> set (machineOptimizations sv state i)"
  shows "\<forall>p\<in>set (opt_parts x). snapshotOf state p"
proof -
  let ?m = "machines state ! i"
  obtain d e where de: "getLastOperatingWeeks sv ?m = (d, e)"
    by (cases "getLastOperatingWeeks sv ?m")
  from getLastOperatingWeeks_lt [OF de] assms(2,3)
  have ld: "nat (d + 1) \<le> length (weekDayPatterns ?m)"
    and le: "nat (e + 1) \<le> length (weekEndPatterns ?m)" by simp_all
  from getLastOperatingWeeks_ge [OF de] have ge: "-1 \<le> d" "-1 \<le> e" by simp_all
  from assms(4) consider
      (rg) "x = mkOptimization (''ReduceGlobal'' @ string_of_nat i)
                  (reduceGlobalMachineParts state i d e)"
    | (rgd) "x = mkOptimization (''ReduceGlobalWeekDay'' @ string_of_nat i)
                  (reduceGlobalWeekDayParts state i d)"
    | (rge) "x = mkOptimization (''ReduceGlobalWeekEnd'' @ string_of_nat i)
                  (reduceGlobalWeekEndParts state i e)"
    | (isd) "d \<noteq> -1" "x \<in> set (improveSplitWeekDay state i d)"
    | (csd) "x \<in> set (createSplitWeekDay sv state i d)"
    | (ise) "e \<noteq> -1" "x \<in> set (improveSplitWeekEnd state i e)"
    | (cse) "x \<in> set (createSplitWeekEnd sv state i d e)"
    unfolding machineOptimizations_segments [OF de] by (auto split: if_splits)
  then show ?thesis
  proof cases
    case rg
    with snapshot_reduceGlobalMachineParts [OF assms(1) ld le] show ?thesis by simp
  next
    case rgd
    with snapshot_reduceGlobalWeekDayParts [OF assms(1) ld] show ?thesis by simp
  next
    case rge
    with snapshot_reduceGlobalWeekEndParts [OF assms(1) le] show ?thesis by simp
  next
    case isd
    from isd(1) ge(1) have "0 \<le> d" by simp
    from snapshot_improveSplitWeekDay [OF assms(1) this ld isd(2)] show ?thesis .
  next
    case csd
    from snapshot_createSplitWeekDay [OF assms(1) ld csd] show ?thesis .
  next
    case ise
    from ise(1) ge(2) have "0 \<le> e" by simp
    from snapshot_improveSplitWeekEnd [OF assms(1) this le ise(2)] show ?thesis .
  next
    case cse
    from snapshot_createSplitWeekEnd [OF assms(1) le cse] show ?thesis .
  qed
qed

lemma snapshot_machineReduceGlobalParts:
  assumes "i < length (machines state)"
    and "length (weekDayPatterns (machines state ! i)) = nat (noWeeks sv)"
    and "length (weekEndPatterns (machines state ! i)) = nat (noWeeks sv)"
  shows "\<forall>p\<in>set (machineReduceGlobalParts sv state i). snapshotOf state p"
proof -
  let ?m = "machines state ! i"
  obtain d e where de: "getLastOperatingWeeks sv ?m = (d, e)"
    by (cases "getLastOperatingWeeks sv ?m")
  from getLastOperatingWeeks_lt [OF de] assms(2,3)
  have ld: "nat (d + 1) \<le> length (weekDayPatterns ?m)"
    and le: "nat (e + 1) \<le> length (weekEndPatterns ?m)" by simp_all
  from snapshot_reduceGlobalMachineParts [OF assms(1) ld le] show ?thesis
    unfolding machineReduceGlobalParts_def Let_def de prod.case by simp
qed

lemma snapshot_generateOptimizations:
  assumes "wellFormed sv state" and "x \<in> set (generateOptimizations sv state)"
  shows "\<forall>p\<in>set (opt_parts x). snapshotOf state p"
proof -
  from assms(1) have len: "length (machines state) = nat (noMachines sv)"
    and each: "\<forall>m\<in>set (machines state). length (weekDayPatterns m) = nat (noWeeks sv)
                 \<and> length (weekEndPatterns m) = nat (noWeeks sv)"
    by (simp_all add: wellFormed_def)
  have ok: "i < length (machines state)
            \<and> length (weekDayPatterns (machines state ! i)) = nat (noWeeks sv)
            \<and> length (weekEndPatterns (machines state ! i)) = nat (noWeeks sv)"
    if "i \<in> set [0..<nat (noMachines sv)]" for i
  proof -
    from that len have i: "i < length (machines state)" by simp
    then have "machines state ! i \<in> set (machines state)" by (rule nth_mem)
    with each i show ?thesis by blast
  qed
  from assms(2) consider
      (machine) i where "i \<in> set [0..<nat (noMachines sv)]"
                        "x \<in> set (machineOptimizations sv state i)"
    | (fleet) "x = mkOptimization ''ReduceGlobal''
                 (concat (map (machineReduceGlobalParts sv state) [0..<nat (noMachines sv)]))"
    | (shutdown) "x = mkOptimization ''Shutdown''
                 (concat (map (shutdownMachineParts sv state) [0..<nat (noMachines sv)]))"
    unfolding generateOptimizations_def set_append set_concat set_map
    by (auto split: if_splits)
  then show ?thesis
  proof cases
    case machine
    from ok [OF machine(1)] machine(2) show ?thesis
      by (intro snapshot_machineOptimizations [where i = i and sv = sv]) simp_all
  next
    case fleet
    show ?thesis
      unfolding fleet opt_parts_mkOptimization set_concat set_map
    proof
      fix p assume "p \<in> \<Union> (set ` machineReduceGlobalParts sv state ` set [0..<nat (noMachines sv)])"
      then obtain i where i: "i \<in> set [0..<nat (noMachines sv)]"
        and p: "p \<in> set (machineReduceGlobalParts sv state i)" by blast
      from ok [OF i] have "\<forall>p\<in>set (machineReduceGlobalParts sv state i). snapshotOf state p"
        by (intro snapshot_machineReduceGlobalParts) simp_all
      with p show "snapshotOf state p" by blast
    qed
  next
    case shutdown
    show ?thesis
      unfolding shutdown opt_parts_mkOptimization set_concat set_map
    proof
      fix p assume "p \<in> \<Union> (set ` shutdownMachineParts sv state ` set [0..<nat (noMachines sv)])"
      then obtain i where i: "i \<in> set [0..<nat (noMachines sv)]"
        and p: "p \<in> set (shutdownMachineParts sv state i)" by blast
      from ok [OF i] have "\<forall>p\<in>set (shutdownMachineParts sv state i). snapshotOf state p"
        by (intro snapshot_shutdownMachineParts) simp_all
      with p show "snapshotOf state p" by blast
    qed
  qed
qed

text \<open>
  C9 (as amended). For a state \<open>s\<close> and a move whose parts are all snapshots of \<open>s\<close>
  (each part addresses a slot of \<open>s\<close> and its \<open>from\<close> field is the code stored there, as
  the constructors \<open>weekDay\<close> and \<open>weekEnd\<close> record it), applying the parts in order and
  then undoing them gives back \<open>s\<close> exactly. Every move that \<open>generateOptimizations\<close>
  builds on a well-formed state is such a move.
\<close>

theorem undo_after_apply:
  "((\<forall>p\<in>set (opt_parts mv). snapshotOf s p) \<longrightarrow> opt_undo mv (opt_apply mv s) = s)
   \<and> (wellFormed sv s \<and> mv \<in> set (generateOptimizations sv s)
        \<longrightarrow> opt_undo mv (opt_apply mv s) = s)"
proof -
  have round_trip: "opt_undo mv (opt_apply mv s) = s"
    if snap: "\<forall>p\<in>set (opt_parts mv). snapshotOf s p"
  proof -
    let ?S = "partSlot ` set (opt_parts mv)"
    from agreesOutside_fold_apply [where S = "{}" and s = s and t = s and ps = "opt_parts mv",
           OF agreesOutside_refl]
    have "agreesOutside ?S s (opt_apply mv s)" by (simp add: opt_apply_def)
    from agreesOutside_fold_undo [OF this snap]
    have "agreesOutside {} s (opt_undo mv (opt_apply mv s))" by (simp add: opt_undo_def)
    then show ?thesis by (rule agreesOutside_empty_eq)
  qed
  show ?thesis
  proof (intro conjI impI)
    assume "\<forall>p\<in>set (opt_parts mv). snapshotOf s p"
    then show "opt_undo mv (opt_apply mv s) = s" by (rule round_trip)
  next
    assume "wellFormed sv s \<and> mv \<in> set (generateOptimizations sv s)"
    then have "\<forall>p\<in>set (opt_parts mv). snapshotOf s p"
      using snapshot_generateOptimizations by blast
    then show "opt_undo mv (opt_apply mv s) = s" by (rule round_trip)
  qed
qed


text \<open>
  The round trip for the move ReduceGlobal0 of the first round of a one-machine,
  one-week run: its two parts are snapshots of the all-9 state, the state is well formed
  and the move is among the generated candidates; \<open>apply\<close> changes the state and \<open>undo\<close>
  restores it.
\<close>

theorem undo_after_apply_witness:
  "snapshotOf (exState [exMachine risingCosts [9] [9] [1/2] [0]] 5 0)
      (weekDay (exState [exMachine risingCosts [9] [9] [1/2] [0]] 5 0) 0 0 8)
   \<and> snapshotOf (exState [exMachine risingCosts [9] [9] [1/2] [0]] 5 0)
      (weekEnd (exState [exMachine risingCosts [9] [9] [1/2] [0]] 5 0) 0 0 8)
   \<and> wellFormed (firstRound risingCosts (feedback1 5 0 (1/2)))
         (exState [exMachine risingCosts [9] [9] [1/2] [0]] 5 0)
   \<and> mkOptimization ''ReduceGlobal0''
         [weekDay (exState [exMachine risingCosts [9] [9] [1/2] [0]] 5 0) 0 0 8,
          weekEnd (exState [exMachine risingCosts [9] [9] [1/2] [0]] 5 0) 0 0 8]
       \<in> set (generateOptimizations (firstRound risingCosts (feedback1 5 0 (1/2)))
                 (exState [exMachine risingCosts [9] [9] [1/2] [0]] 5 0))
   \<and> opt_apply (mkOptimization ''ReduceGlobal0''
                   [weekDay (exState [exMachine risingCosts [9] [9] [1/2] [0]] 5 0) 0 0 8,
                    weekEnd (exState [exMachine risingCosts [9] [9] [1/2] [0]] 5 0) 0 0 8])
        (exState [exMachine risingCosts [9] [9] [1/2] [0]] 5 0)
      = exState [exMachine risingCosts [8] [8] [1/2] [0]] 5 0
   \<and> opt_undo (mkOptimization ''ReduceGlobal0''
                   [weekDay (exState [exMachine risingCosts [9] [9] [1/2] [0]] 5 0) 0 0 8,
                    weekEnd (exState [exMachine risingCosts [9] [9] [1/2] [0]] 5 0) 0 0 8])
        (opt_apply (mkOptimization ''ReduceGlobal0''
                   [weekDay (exState [exMachine risingCosts [9] [9] [1/2] [0]] 5 0) 0 0 8,
                    weekEnd (exState [exMachine risingCosts [9] [9] [1/2] [0]] 5 0) 0 0 8])
           (exState [exMachine risingCosts [9] [9] [1/2] [0]] 5 0))
      = exState [exMachine risingCosts [9] [9] [1/2] [0]] 5 0"
proof -
  let ?s = "exState [exMachine risingCosts [9] [9] [1/2] [0]] 5 0"
  let ?sv = "firstRound risingCosts (feedback1 5 0 (1/2))"
  let ?mv = "mkOptimization ''ReduceGlobal0'' [weekDay ?s 0 0 8, weekEnd ?s 0 0 8]"
  have d: "snapshotOf ?s (weekDay ?s 0 0 8)"
    by (rule snapshotOf_weekDay) (simp_all add: exState_def exMachine_def)
  have e: "snapshotOf ?s (weekEnd ?s 0 0 8)"
    by (rule snapshotOf_weekEnd) (simp_all add: exState_def exMachine_def)
  from d e have snap: "\<forall>p\<in>set (opt_parts ?mv). snapshotOf ?s p" by simp
  have wf: "wellFormed ?sv ?s"
    unfolding firstRound_eval by (simp add: wellFormed_def exState_def exMachine_def)
  have gen: "?mv \<in> set (generateOptimizations ?sv ?s)"
    unfolding firstRound_eval by (simp add: example_defs model_defs eval_simps)
  from undo_after_apply [of ?mv ?s ?sv] snap have r: "opt_undo ?mv (opt_apply ?mv ?s) = ?s"
    by blast
  from undo_after_apply [of ?mv ?s ?sv] wf gen have "opt_undo ?mv (opt_apply ?mv ?s) = ?s"
    by blast
  have a: "opt_apply ?mv ?s = exState [exMachine risingCosts [8] [8] [1/2] [0]] 5 0"
    by (simp add: example_defs model_defs eval_simps)
  from d e wf gen a r show ?thesis by blast
qed

text \<open>
  C9 as stated (any move, any state) fails: a part whose \<open>from\<close> field is 5, applied to
  and undone on a state that holds 9 in its slot, leaves 5 there.
\<close>

theorem undo_after_apply_counterexample:
  "opt_undo (mkOptimization []
               [\<lparr> part_machine = 0, part_week = 0, part_type = WEEK_DAY,
                   part_from = 5, part_to = 4, part_costImprovement = 0 \<rparr>])
     (opt_apply (mkOptimization []
               [\<lparr> part_machine = 0, part_week = 0, part_type = WEEK_DAY,
                   part_from = 5, part_to = 4, part_costImprovement = 0 \<rparr>])
        (exState [exMachine risingCosts [9] [9] [1/2] [0]] 5 0))
   = exState [exMachine risingCosts [5] [9] [1/2] [0]] 5 0
   \<and> exState [exMachine risingCosts [5] [9] [1/2] [0]] 5 0
       \<noteq> exState [exMachine risingCosts [9] [9] [1/2] [0]] 5 0"
  by (simp add: example_defs model_defs eval_simps)


section \<open>C10: the identity of a move\<close>

text \<open>
  C10. The id of a move is computed from its parts alone: two moves with the same parts
  have the same id, whatever their names. So when the id of one is in
  \<open>badOptimizations\<close>, the selection never returns the other. An instance: when exactly
  one machine \<open>m\<close> passes the guard of the combined per-machine reduction (and the
  fleet-wide move is generated at all), the candidates "ReduceGlobal<m>" and
  "ReduceGlobal" have the same parts and the same id.
\<close>

theorem move_identity_ignores_name:
  "opt_id (mkOptimization name1 parts) = opt_id (mkOptimization name2 parts)
   \<and> (opt_id (mkOptimization name1 parts) \<in> badOptimizations sv
        \<longrightarrow> selectBest sv opts \<noteq> Some (mkOptimization name2 parts))
   \<and> (m < nat (noMachines sv) \<and> canReduceGlobal sv state m
        \<and> (\<forall>i<nat (noMachines sv). i \<noteq> m \<longrightarrow> \<not> canReduceGlobal sv state i)
        \<and> noInteractions sv \<noteq> 300 \<and> \<not> reduceGlobalFailed sv
        \<longrightarrow> (\<exists>a\<in>set (generateOptimizations sv state).
             \<exists>b\<in>set (generateOptimizations sv state).
               opt_name a = ''ReduceGlobal'' @ string_of_nat m \<and> opt_name b = ''ReduceGlobal''
               \<and> opt_parts a = opt_parts b \<and> opt_id a = opt_id b))"
proof (intro conjI impI)
  show ids: "opt_id (mkOptimization name1 parts) = opt_id (mkOptimization name2 parts)"
    for name1 name2 parts
    by (simp add: opt_id_mkOptimization)
  {
    assume bad: "opt_id (mkOptimization name1 parts) \<in> badOptimizations sv"
    show "selectBest sv opts \<noteq> Some (mkOptimization name2 parts)"
    proof
      assume "selectBest sv opts = Some (mkOptimization name2 parts)"
      from selectBest_Some [OF this]
      have "opt_id (mkOptimization name2 parts) \<notin> badOptimizations sv" by simp
      with bad ids [of name1 parts name2] show False by simp
    qed
  }
  {
    assume h: "m < nat (noMachines sv) \<and> canReduceGlobal sv state m
        \<and> (\<forall>i<nat (noMachines sv). i \<noteq> m \<longrightarrow> \<not> canReduceGlobal sv state i)
        \<and> noInteractions sv \<noteq> 300 \<and> \<not> reduceGlobalFailed sv"
    let ?a = "mkOptimization (''ReduceGlobal'' @ string_of_nat m)
                (machineReduceGlobalParts sv state m)"
    let ?b = "mkOptimization ''ReduceGlobal''
                (concat (map (machineReduceGlobalParts sv state) [0..<nat (noMachines sv)]))"
    from h have m: "m < nat (noMachines sv)" and c: "canReduceGlobal sv state m"
      and o: "\<forall>i<nat (noMachines sv). i \<noteq> m \<longrightarrow> \<not> canReduceGlobal sv state i"
      and n: "noInteractions sv \<noteq> 300" and f: "\<not> reduceGlobalFailed sv"
      by blast+
    have others: "\<forall>i<nat (noMachines sv). i \<noteq> m \<longrightarrow> machineReduceGlobalParts sv state i = []"
      using o machineReduceGlobalParts_Nil by blast
    have parts: "concat (map (machineReduceGlobalParts sv state) [0..<nat (noMachines sv)])
                   = machineReduceGlobalParts sv state m"
      using m others by (rule concat_map_single)
    have a_in: "?a \<in> set (generateOptimizations sv state)"
      using m reduceGlobal_in_machineOptimizations [OF c] by (rule generateOptimizations_machine)
    have b_in: "?b \<in> set (generateOptimizations sv state)"
      using n f by (simp add: generateOptimizations_def)
    have "opt_name ?a = ''ReduceGlobal'' @ string_of_nat m \<and> opt_name ?b = ''ReduceGlobal''
          \<and> opt_parts ?a = opt_parts ?b \<and> opt_id ?a = opt_id ?b"
      by (simp add: parts opt_id_mkOptimization)
    with a_in b_in
    show "\<exists>a\<in>set (generateOptimizations sv state).
             \<exists>b\<in>set (generateOptimizations sv state).
               opt_name a = ''ReduceGlobal'' @ string_of_nat m \<and> opt_name b = ''ReduceGlobal''
               \<and> opt_parts a = opt_parts b \<and> opt_id a = opt_id b"
      by blast
  }
qed

text \<open>
  The instance on a one-machine run. After ReduceGlobal0 has been undone and blacklisted,
  the fleet-wide ReduceGlobal with the same parts is never the selected move; and in the
  first round both candidates are generated with equal parts and ids.
\<close>

theorem move_identity_ignores_name_witness:
  "opt_id (mkOptimization ''ReduceGlobal0'' (opt_parts (the (previousOptimization (secondRound 3 0)))))
      \<in> badOptimizations (revertStep (secondRound 3 0))
   \<and> selectBest (revertStep (secondRound 3 0))
        (generateOptimizations (revertStep (secondRound 3 0))
           (last (states (revertStep (secondRound 3 0)))))
      \<noteq> Some (mkOptimization ''ReduceGlobal'' (opt_parts (the (previousOptimization (secondRound 3 0)))))
   \<and> canReduceGlobal (firstRound risingCosts (feedback1 5 0 (1/2)))
        (last (states (firstRound risingCosts (feedback1 5 0 (1/2))))) 0
   \<and> (\<exists>a\<in>set (generateOptimizations (firstRound risingCosts (feedback1 5 0 (1/2)))
                  (last (states (firstRound risingCosts (feedback1 5 0 (1/2)))))).
       \<exists>b\<in>set (generateOptimizations (firstRound risingCosts (feedback1 5 0 (1/2)))
                  (last (states (firstRound risingCosts (feedback1 5 0 (1/2)))))).
         opt_name a = ''ReduceGlobal0'' \<and> opt_name b = ''ReduceGlobal''
         \<and> opt_parts a = opt_parts b \<and> opt_id a = opt_id b)"
proof -
  let ?sv = "revertStep (secondRound 3 0)"
  let ?parts = "opt_parts (the (previousOptimization (secondRound 3 0)))"
  let ?fr = "firstRound risingCosts (feedback1 5 0 (1/2))"
  have bad: "opt_id (mkOptimization ''ReduceGlobal0'' ?parts) \<in> badOptimizations ?sv"
    unfolding secondRound_eval by (simp add: example_defs model_defs eval_simps)
  have can: "canReduceGlobal ?fr (last (states ?fr)) 0"
    unfolding firstRound_eval by (simp add: example_defs model_defs eval_simps)
  have hyp: "0 < nat (noMachines ?fr) \<and> canReduceGlobal ?fr (last (states ?fr)) 0
        \<and> (\<forall>i<nat (noMachines ?fr). i \<noteq> 0 \<longrightarrow> \<not> canReduceGlobal ?fr (last (states ?fr)) i)
        \<and> noInteractions ?fr \<noteq> 300 \<and> \<not> reduceGlobalFailed ?fr"
    using can unfolding firstRound_eval by simp
  from move_identity_ignores_name
         [of "''ReduceGlobal0''" ?parts "''ReduceGlobal''" ?sv
             "generateOptimizations ?sv (last (states ?sv))"]
       bad
  have sel: "selectBest ?sv (generateOptimizations ?sv (last (states ?sv)))
               \<noteq> Some (mkOptimization ''ReduceGlobal'' ?parts)"
    by blast
  from move_identity_ignores_name [of _ _ _ ?fr _ 0 "last (states ?fr)"] hyp
  have ex: "\<exists>a\<in>set (generateOptimizations ?fr (last (states ?fr))).
            \<exists>b\<in>set (generateOptimizations ?fr (last (states ?fr))).
              opt_name a = ''ReduceGlobal'' @ string_of_nat 0 \<and> opt_name b = ''ReduceGlobal''
              \<and> opt_parts a = opt_parts b \<and> opt_id a = opt_id b"
    by blast
  have "''ReduceGlobal'' @ string_of_nat 0 = ''ReduceGlobal0''"
    by (simp add: string_of_nat.simps)
  with ex bad sel can show ?thesis by simp
qed

end
